theory Spec2Isabelle
  imports Main "HOL-Library.Monad_Syntax"
begin

section \<open>Text and numbers\<close>

text \<open>
  Go strings are byte sequences; they are modelled as \<open>string\<close> (a list of 8-bit
  characters). The helpers below follow the unexported helpers of Go's \<open>time\<close> package
  (\<open>isDigit\<close>, \<open>getnum\<close>, \<open>appendInt\<close>) and \<open>strconv.Atoi\<close> / \<open>fmt.Sprintf("%d")\<close>,
  which the program calls.
\<close>

definition isDigit :: "char \<Rightarrow> bool" where
  "isDigit c = (c \<in> set ''0123456789'')"

text \<open>
  The ten digit characters in order: the value of a digit is its place in this row,
  and the character of a value below ten is the one at that place.
\<close>

definition digitRow :: string where
  "digitRow = ''0123456789''"

definition digitVal :: "char \<Rightarrow> nat" where
  "digitVal c = length (takeWhile (\<lambda>x. x \<noteq> c) digitRow)"

definition digitChar :: "nat \<Rightarrow> char" where
  "digitChar d = digitRow ! (d mod 10)"

text \<open>The value of a string of decimal digits, most significant digit first.\<close>

definition valOf :: "string \<Rightarrow> nat" where
  "valOf s = foldl (\<lambda>a c. 10 * a + digitVal c) 0 s"

text \<open>The decimal digits of a natural number, without leading zeros.\<close>

fun digitsOf :: "nat \<Rightarrow> string" where
  "digitsOf n = (if n < 10 then [digitChar n] else digitsOf (n div 10) @ [digitChar (n mod 10)])"

declare digitsOf.simps [simp del]

text \<open>\<open>fmt.Sprintf("%d", n)\<close>: a minus sign for a negative number, then the digits.\<close>

definition sprintf_d :: "int \<Rightarrow> string" where
  "sprintf_d n = (if n < 0 then CHR ''-'' # digitsOf (nat (- n)) else digitsOf (nat n))"

text \<open>
  \<open>strconv.Atoi\<close> on a 64-bit platform: an optional sign, then one or more decimal
  digits and nothing else; a value outside the range of \<open>int\<close> is an error.
\<close>

definition strconv_Atoi :: "string \<Rightarrow> int option" where
  "strconv_Atoi s =
     (let neg = (s \<noteq> [] \<and> hd s = CHR ''-'');
          body = (if s \<noteq> [] \<and> (hd s = CHR ''-'' \<or> hd s = CHR ''+'') then tl s else s)
      in if body = [] \<or> \<not> list_all isDigit body then None
         else let v = (if neg then - int (valOf body) else int (valOf body))
              in if - (2 ^ 63) \<le> v \<and> v < 2 ^ 63 then Some v else None)"

text \<open>
  \<open>appendInt(b, x, width)\<close> of package \<open>time\<close>: the sign, zeros up to \<open>width\<close>
  digits, the digits.
\<close>

definition appendInt :: "int \<Rightarrow> nat \<Rightarrow> string" where
  "appendInt x width =
     (let ds = digitsOf (nat \<bar>x\<bar>)
      in (if x < 0 then ''-'' else '''') @ replicate (width - length ds) (CHR ''0'') @ ds)"

text \<open>
  \<open>getnum(s, fixed)\<close> of package \<open>time\<close>: one or two leading digits; with \<open>fixed\<close>
  exactly two are required. The result is the number and the rest of the text.
\<close>

definition getnum :: "string \<Rightarrow> bool \<Rightarrow> (int \<times> string) option" where
  "getnum s fixed =
     (case s of
        [] \<Rightarrow> None
      | c # r \<Rightarrow>
          if \<not> isDigit c then None
          else (case r of
                  [] \<Rightarrow> if fixed then None else Some (int (digitVal c), r)
                | c2 # r2 \<Rightarrow>
                    if \<not> isDigit c2 then (if fixed then None else Some (int (digitVal c), r))
                    else Some (int (digitVal c) * 10 + int (digitVal c2), r2)))"

text \<open>\<open>skip(value, prefix)\<close> for a one-character literal of the layout.\<close>

definition skipChar :: "char \<Rightarrow> string \<Rightarrow> string option" where
  "skipChar p v = (case v of [] \<Rightarrow> None | c # r \<Rightarrow> if c = p then Some r else None)"

section \<open>The calendar of package time\<close>

text \<open>
  Instants are counted in nanoseconds since 1970-01-01T00:00:00Z, as \<open>int\<close>. Days are
  counted from 0001-01-01 of the proleptic Gregorian calendar; Go counts them from the
  first day of a year that is also 1 modulo 400, so the cycle arithmetic below is the
  one of \<open>daysSinceEpoch\<close> and \<open>absDate\<close>.
\<close>

definition isLeap :: "int \<Rightarrow> bool" where
  "isLeap year = (year mod 4 = 0 \<and> (year mod 100 \<noteq> 0 \<or> year mod 400 = 0))"

definition daysBefore :: "int \<Rightarrow> int" where
  "daysBefore m =
     [0, 31, 59, 90, 120, 151, 181, 212, 243, 273, 304, 334, 365] ! nat m"

definition daysIn :: "int \<Rightarrow> int \<Rightarrow> int" where
  "daysIn m year =
     (if m = 2 \<and> isLeap year then 29 else daysBefore m - daysBefore (m - 1))"

definition daysSinceEpoch :: "int \<Rightarrow> int" where
  "daysSinceEpoch year =
     (let y = year - 1;
          n400 = y div 400; y1 = y - 400 * n400;
          n100 = y1 div 100; y2 = y1 - 100 * n100;
          n4 = y2 div 4; y3 = y2 - 4 * n4
      in 146097 * n400 + 36524 * n100 + 1461 * n4 + 365 * y3)"

text \<open>Days between 0001-01-01 and 1970-01-01.\<close>

definition unixEpochDays :: int where
  "unixEpochDays = 719162"

text \<open>
  \<open>time.Date\<close> in UTC on fields that are already in range (\<open>Parse\<close> checks them
  first): the Unix time in seconds.
\<close>

definition dateUnix :: "int \<Rightarrow> int \<Rightarrow> int \<Rightarrow> int \<Rightarrow> int \<Rightarrow> int \<Rightarrow> int" where
  "dateUnix year month day hour minute sec =
     (let d = daysSinceEpoch year + daysBefore (month - 1)
              + (if isLeap year \<and> 3 \<le> month then 1 else 0) + (day - 1)
      in (d - unixEpochDays) * 86400 + hour * 3600 + minute * 60 + sec)"

text \<open>
  A \<open>*time.Location\<close> is modelled by its lookup: the offset east of UTC, in seconds,
  in effect at a Unix time. \<open>time.Date\<close> in a location reads the fields as a wall
  clock: it looks the offset up at the wall-clock value, and again at the value
  corrected by that offset when this falls in another zone period.
\<close>

type_synonym location = "int \<Rightarrow> int"

definition unixInLocation :: "location \<Rightarrow> int \<Rightarrow> int" where
  "unixInLocation loc unix =
     (let offset = loc unix in if offset \<noteq> 0 then unix - loc (unix - offset) else unix)"

text \<open>\<open>absDate\<close>: the year and the day of the year (from 0) of a day number.\<close>

definition absYearDay :: "int \<Rightarrow> int \<times> int" where
  "absYearDay d0 =
     (let n400 = d0 div 146097; d1 = d0 - 146097 * n400;
          c = d1 div 36524; n100 = c - c div 4; d2 = d1 - 36524 * n100;
          n4 = d2 div 1461; d3 = d2 - 1461 * n4;
          e = d3 div 365; n1 = e - e div 4; d4 = d3 - 365 * n1
      in (1 + 400 * n400 + 100 * n100 + 4 * n4 + n1, d4))"

text \<open>The month and the day of the month of a day of the year.\<close>

definition monthDay :: "int \<Rightarrow> int \<Rightarrow> int \<times> int" where
  "monthDay year yday =
     (if isLeap year \<and> yday = 59 then (2, 29)
      else let day = (if isLeap year \<and> 59 < yday then yday - 1 else yday);
               m = day div 31;
               e = daysBefore (m + 1)
           in if e \<le> day then (m + 2, day - e + 1) else (m + 1, day - daysBefore m + 1))"

section \<open>Formatting and parsing times\<close>

text \<open>
  A \<open>time.Time\<close> is modelled by its instant, in nanoseconds since the Unix epoch. The
  Unix second of an instant rounds down, as the seconds field of a \<open>Time\<close> does.
\<close>

definition unixSec :: "int \<Rightarrow> int" where
  "unixSec t = t div 1000000000"

text \<open>Seconds since 0001-01-01T00:00:00 on the wall clock of the location.\<close>

definition localAbs :: "location \<Rightarrow> int \<Rightarrow> int" where
  "localAbs loc t = unixSec t + loc (unixSec t) + unixEpochDays * 86400"

text \<open>\<open>t.Format("2006-01-02")\<close> for a time in the location.\<close>

definition formatDate :: "location \<Rightarrow> int \<Rightarrow> string" where
  "formatDate loc t =
     (let (year, yday) = absYearDay (localAbs loc t div 86400);
          (month, day) = monthDay year yday
      in appendInt year 4 @ ''-'' @ appendInt month 2 @ ''-'' @ appendInt day 2)"

text \<open>
  The layout element \<open>-07:00\<close>: the offset in whole minutes (Go's division rounds
  towards zero), as sign, hours and minutes.
\<close>

definition formatZone :: "int \<Rightarrow> string" where
  "formatZone offset =
     (let zone = (if offset < 0 then - ((- offset) div 60) else offset div 60)
      in (if zone < 0 then ''-'' else ''+'')
         @ appendInt (\<bar>zone\<bar> div 60) 2 @ '':'' @ appendInt (\<bar>zone\<bar> mod 60) 2)"

text \<open>\<open>t.Format("2006-01-02T15:04:05-07:00")\<close> for a time in the location.\<close>

definition formatTimestamp :: "location \<Rightarrow> int \<Rightarrow> string" where
  "formatTimestamp loc t =
     (let sod = localAbs loc t mod 86400
      in formatDate loc t @ ''T'' @ appendInt (sod div 3600) 2 @ '':''
         @ appendInt ((sod mod 3600) div 60) 2 @ '':'' @ appendInt (sod mod 60) 2
         @ formatZone (loc (unixSec t)))"

text \<open>
  \<open>time.Parse\<close> is modelled for the two layouts the program uses. The layout element
  \<open>2006\<close> takes four digits, \<open>01\<close>, \<open>02\<close>, \<open>04\<close> and \<open>05\<close> two digits each, \<open>15\<close> one or
  two digits; each literal character of the layout must be matched. A fraction of a
  second after the seconds is accepted although the layout has none; \<open>-07:00\<close> needs a
  sign, two digits, a colon and two digits (hours up to 24, minutes up to 60, as Go
  1.20 and later check them). Text left over, a month outside 1..12 and a day
  outside the month are errors. Every error is \<open>None\<close>: the program never looks at
  which error it got.
\<close>

definition parseYear :: "string \<Rightarrow> (int \<times> string) option" where
  "parseYear v =
     (if length v < 4 \<or> \<not> isDigit (hd v) then None
      else if list_all isDigit (take 4 v) then Some (int (valOf (take 4 v)), drop 4 v)
      else None)"

definition parseYMD :: "string \<Rightarrow> ((int \<times> int \<times> int) \<times> string) option" where
  "parseYMD v0 =
     do {
       (year, v1) \<leftarrow> parseYear v0;
       v2 \<leftarrow> skipChar (CHR ''-'') v1;
       (month, v3) \<leftarrow> getnum v2 True;
       if month \<le> 0 \<or> 12 < month then None
       else do {
         v4 \<leftarrow> skipChar (CHR ''-'') v3;
         (day, v5) \<leftarrow> getnum v4 True;
         Some ((year, month, day), v5)
       }
     }"

definition parseFraction :: "string \<Rightarrow> int \<times> string" where
  "parseFraction v =
     (if 2 \<le> length v \<and> (hd v = CHR ''.'' \<or> hd v = CHR '','') \<and> isDigit (v ! 1)
      then let ds = takeWhile isDigit (tl v); used = take 9 ds
           in (int (valOf used) * 10 ^ (9 - length used), drop (length ds) (tl v))
      else (0, v))"

definition parseZone :: "string \<Rightarrow> (int \<times> string) option" where
  "parseZone v =
     (if length v < 6 then None
      else if v ! 3 \<noteq> CHR '':'' then None
      else do {
        (hr, r1) \<leftarrow> getnum (take 2 (drop 1 v)) True;
        (mm, r2) \<leftarrow> getnum (take 2 (drop 4 v)) True;
        if 24 < hr \<or> 60 < mm then None
        else if v ! 0 = CHR ''+'' then Some ((hr * 60 + mm) * 60, drop 6 v)
        else if v ! 0 = CHR ''-'' then Some (- ((hr * 60 + mm) * 60), drop 6 v)
        else None
      })"

text \<open>
  \<open>time.Parse("2006-01-02T15:04:05-07:00", s)\<close>. The offset in the text fixes the
  instant, so \<open>time.ParseInLocation\<close> with this layout gives the same instant in
  every location.
\<close>

definition parseTimestamp :: "string \<Rightarrow> int option" where
  "parseTimestamp s =
     do {
       ((year, month, day), v1) \<leftarrow> parseYMD s;
       v2 \<leftarrow> skipChar (CHR ''T'') v1;
       (hour, v3) \<leftarrow> getnum v2 False;
       v4 \<leftarrow> skipChar (CHR '':'') v3;
       (minute, v5) \<leftarrow> getnum v4 True;
       v6 \<leftarrow> skipChar (CHR '':'') v5;
       (sec, v7) \<leftarrow> getnum v6 True;
       (zoneOffset, v9) \<leftarrow> parseZone (snd (parseFraction v7));
       if 24 \<le> hour \<or> 60 \<le> minute \<or> 60 \<le> sec \<or> v9 \<noteq> [] \<or> day < 1 \<or> daysIn month year < day
       then None
       else Some ((dateUnix year month day hour minute sec - zoneOffset) * 1000000000
                  + fst (parseFraction v7))
     }"

text \<open>\<open>time.ParseInLocation("2006-01-02", s, loc)\<close>: midnight on the wall clock of \<open>loc\<close>.\<close>

definition parseDateInLocation :: "location \<Rightarrow> string \<Rightarrow> int option" where
  "parseDateInLocation loc s =
     do {
       ((year, month, day), rest) \<leftarrow> parseYMD s;
       if rest \<noteq> [] \<or> day < 1 \<or> daysIn month year < day then None
       else Some (unixInLocation loc (dateUnix year month day 0 0 0) * 1000000000)
     }"

text \<open>
  The times for which the layout is exact: the year has four digits and the zone offset
  is a whole number of minutes, less than a day. Every zone of the time zone database
  has had such offsets since 1972.
\<close>

definition yearOf :: "location \<Rightarrow> int \<Rightarrow> int" where
  "yearOf loc t = fst (absYearDay (localAbs loc t div 86400))"

definition representable :: "location \<Rightarrow> int \<Rightarrow> bool" where
  "representable loc t =
     (0 \<le> yearOf loc t \<and> yearOf loc t \<le> 9999
      \<and> \<bar>loc (unixSec t)\<bar> < 86400 \<and> loc (unixSec t) mod 60 = 0)"

text \<open>
  The characters of a formatted timestamp, from its fields: the date, the clock and the
  zone.
\<close>

definition dateChars :: "nat \<Rightarrow> nat \<Rightarrow> nat \<Rightarrow> string" where
  "dateChars Y M D =
     [digitChar (Y div 1000), digitChar (Y div 100 mod 10), digitChar (Y div 10 mod 10),
      digitChar (Y mod 10), CHR ''-'', digitChar (M div 10), digitChar (M mod 10), CHR ''-'',
      digitChar (D div 10), digitChar (D mod 10)]"

definition clockChars :: "nat \<Rightarrow> nat \<Rightarrow> nat \<Rightarrow> string" where
  "clockChars h mi s =
     [CHR ''T'', digitChar (h div 10), digitChar (h mod 10), CHR '':'', digitChar (mi div 10),
      digitChar (mi mod 10), CHR '':'', digitChar (s div 10), digitChar (s mod 10)]"

definition zoneChars :: "bool \<Rightarrow> nat \<Rightarrow> nat \<Rightarrow> string" where
  "zoneChars neg zh zm =
     [if neg then CHR ''-'' else CHR ''+'', digitChar (zh div 10), digitChar (zh mod 10), CHR '':'',
      digitChar (zm div 10), digitChar (zm mod 10)]"

text \<open>The shape \<open>YYYY-MM-DDTHH:MM:SS\<plusminus>HH:MM\<close> of a text.\<close>

definition timestampShaped :: "string \<Rightarrow> bool" where
  "timestampShaped ts =
     (length ts = 25
      \<and> list_all isDigit (take 4 ts) \<and> ts ! 4 = CHR ''-''
      \<and> list_all isDigit (take 2 (drop 5 ts)) \<and> ts ! 7 = CHR ''-''
      \<and> list_all isDigit (take 2 (drop 8 ts)) \<and> ts ! 10 = CHR ''T''
      \<and> list_all isDigit (take 2 (drop 11 ts)) \<and> ts ! 13 = CHR '':''
      \<and> list_all isDigit (take 2 (drop 14 ts)) \<and> ts ! 16 = CHR '':''
      \<and> list_all isDigit (take 2 (drop 17 ts))
      \<and> (ts ! 19 = CHR ''+'' \<or> ts ! 19 = CHR ''-'')
      \<and> list_all isDigit (take 2 (drop 20 ts)) \<and> ts ! 22 = CHR '':''
      \<and> list_all isDigit (take 2 (drop 23 ts)))"

section \<open>The store as the CSV reader sees it\<close>

text \<open>
  A file is modelled by its lines as \<open>encoding/csv\<close> reads them. A line that ends
  with a newline is the fields of the line, or a line with a quoting error; a line
  without fields is a blank line. The last line of a file may lack the newline: it is
  then its fields (the fields before the last one, the last field, and whether the last
  field is a quoted one that has been closed), or a line with a quoting error, or a
  quoted field that is never closed, which holds everything up to the end of the file.
  These three can only be the last line of a file.
\<close>

datatype csvline =
    Fields "string list"
  | BadQuote
  | NoNewline "string list" string bool
  | NoNewlineBad
  | OpenQuote

text \<open>
  \<open>csv.Reader.ReadAll\<close> with the default \<open>FieldsPerRecord = 0\<close>: blank lines are
  skipped, the first record fixes the number of fields, and a quoting error or a
  record with another number of fields is an error for the whole read (\<open>None\<close>).
  A last line without a newline is read like any other line.
  The first argument is \<open>FieldsPerRecord\<close>, 0 while no record has been read.
\<close>

fun readRecords :: "nat \<Rightarrow> csvline list \<Rightarrow> string list list option" where
  "readRecords n [] = Some []"
| "readRecords n (BadQuote # ls) = None"
| "readRecords n (NoNewlineBad # ls) = None"
| "readRecords n (OpenQuote # ls) = None"
| "readRecords n (Fields fs # ls) =
     (if fs = [] then readRecords n ls
      else if n \<noteq> 0 \<and> length fs \<noteq> n then None
      else map_option ((#) fs) (readRecords (length fs) ls))"
| "readRecords n (NoNewline init f quoted # ls) =
     (if n \<noteq> 0 \<and> length (init @ [f]) \<noteq> n then None
      else map_option ((#) (init @ [f])) (readRecords (length (init @ [f])) ls))"

definition ReadAll :: "csvline list \<Rightarrow> string list list option" where
  "ReadAll ls = readRecords 0 ls"

text \<open>
  \<open>csv.Writer.Write\<close> followed by \<open>Flush\<close> on a file opened with \<open>O_APPEND\<close>:
  the bytes of the record, its fields separated by commas and followed by a newline,
  are put at the end of the file. The fields the program writes are made of digits,
  \<open>-\<close>, \<open>+\<close>, \<open>:\<close> and \<open>T\<close>, which the writer does not quote. After a
  file that is empty or ends with a newline the record is a new line. After a last
  line without a newline the bytes continue that line: its last field runs on into the
  first field of the record, and the other fields of the record follow; behind the
  closing quote of a quoted field the reader takes them for a quoting error; inside a
  quoted field that is never closed they stay inside it.
\<close>

definition writeAtEnd :: "csvline list \<Rightarrow> string list \<Rightarrow> csvline list" where
  "writeAtEnd ls r =
     (if ls = [] then [Fields r]
      else case last ls of
             Fields fs \<Rightarrow> ls @ [Fields r]
           | BadQuote \<Rightarrow> ls @ [Fields r]
           | NoNewline init f quoted \<Rightarrow>
               butlast ls @ [if quoted then BadQuote else Fields (init @ [f @ hd r] @ tl r)]
           | NoNewlineBad \<Rightarrow> butlast ls @ [BadQuote]
           | OpenQuote \<Rightarrow> ls)"

text \<open>A file that is empty or whose last line ends with a newline.\<close>

definition endsWithNewline :: "csvline list \<Rightarrow> bool" where
  "endsWithNewline ls =
     (ls = [] \<or> (case last ls of Fields fs \<Rightarrow> True | BadQuote \<Rightarrow> True | _ \<Rightarrow> False))"

text \<open>A run-time panic of Go ends the process.\<close>

datatype panic = SliceBoundsOutOfRange | IndexOutOfRange

section \<open>Scan mode (checkin.go)\<close>

text \<open>\<open>regexp.MustCompile(`^\d+$`).MatchString\<close>: one or more ASCII digits, nothing else.\<close>

definition numRegex :: "string \<Rightarrow> bool" where
  "numRegex s = (s \<noteq> [] \<and> list_all isDigit s)"

text \<open>The loop of \<open>getDailyCount\<close> over the records, with \<open>maxCount\<close> as accumulator.\<close>

fun maxCountLoop :: "string \<Rightarrow> int \<Rightarrow> string list list \<Rightarrow> panic + int" where
  "maxCountLoop currentDate maxCount [] = Inr maxCount"
| "maxCountLoop currentDate maxCount (record # records) =
     (case record of
        [] \<Rightarrow> Inl IndexOutOfRange
      | field0 # rest \<Rightarrow>
          if length field0 < 10 then Inl SliceBoundsOutOfRange
          else if take 10 field0 = currentDate \<and> 2 < length record then
            (case strconv_Atoi (record ! 2) of
               None \<Rightarrow> maxCountLoop currentDate maxCount records
             | Some count \<Rightarrow>
                 if maxCount < count then maxCountLoop currentDate count records
                 else maxCountLoop currentDate maxCount records)
          else maxCountLoop currentDate maxCount records)"

text \<open>
  \<open>getDailyCount(file, currentDate)\<close>. \<open>seekOk\<close> is the outcome of \<open>file.Seek(0, 0)\<close>,
  \<open>ls\<close> the contents of the file.
\<close>

definition getDailyCount :: "bool \<Rightarrow> csvline list \<Rightarrow> string \<Rightarrow> panic + int" where
  "getDailyCount seekOk ls currentDate =
     (if \<not> seekOk then Inr 0
      else case ReadAll ls of
             None \<Rightarrow> Inr 0
           | Some records \<Rightarrow> maxCountLoop currentDate 0 records)"

text \<open>The loop of \<open>checkRecentDuplicate\<close>.\<close>

fun duplicateLoop :: "int \<Rightarrow> string \<Rightarrow> string list list \<Rightarrow> panic + bool" where
  "duplicateLoop twoHoursAgo barcodeID [] = Inr False"
| "duplicateLoop twoHoursAgo barcodeID (record # records) =
     (case record of
        [] \<Rightarrow> Inl IndexOutOfRange
      | field0 # rest \<Rightarrow>
          (case parseTimestamp field0 of
             None \<Rightarrow> duplicateLoop twoHoursAgo barcodeID records
           | Some recordTime \<Rightarrow>
               (case rest of
                  [] \<Rightarrow> Inl IndexOutOfRange
                | field1 # rest' \<Rightarrow>
                    if field1 = barcodeID \<and> twoHoursAgo < recordTime then Inr True
                    else duplicateLoop twoHoursAgo barcodeID records)))"

text \<open>Two hours, in nanoseconds.\<close>

definition twoHours :: int where
  "twoHours = 2 * 3600 * 1000000000"

text \<open>
  \<open>checkRecentDuplicate(file, barcodeID)\<close>. \<open>now\<close> is the value of \<open>time.Now()\<close> read
  inside the function.
\<close>

definition checkRecentDuplicate :: "bool \<Rightarrow> csvline list \<Rightarrow> int \<Rightarrow> string \<Rightarrow> panic + bool" where
  "checkRecentDuplicate seekOk ls now barcodeID =
     (if \<not> seekOk then Inr False
      else case ReadAll ls of
             None \<Rightarrow> Inr False
           | Some records \<Rightarrow> duplicateLoop (now - twoHours) barcodeID records)"

text \<open>\<open>dailyCount++\<close> on Go's 64-bit \<open>int\<close>.\<close>

definition wrap64 :: "int \<Rightarrow> int" where
  "wrap64 x = (x + 2 ^ 63) mod 2 ^ 64 - 2 ^ 63"

text \<open>
  The state that one iteration of the loop of \<open>runScanMode\<close> reads and changes: the
  contents of the open file, the two local variables, and whether the buffered writer
  has met an error (\<open>bufio.Writer\<close> keeps its first error and fails from then on).
\<close>

record scan_state =
  store :: "csvline list"
  currentDate :: string
  dailyCount :: int
  writerFailed :: bool

text \<open>
  What one iteration takes from outside: the token \<open>fmt.Scanln\<close> read (empty when
  it read none), the outcome of the seek and the clock inside
  \<open>checkRecentDuplicate\<close>, the clock read in the loop body, and how the write went.
\<close>

datatype write_result = WriteOk | WriteFails | FlushFails

record scan_input =
  barcodeID :: string
  seekOk :: bool
  nowCheck :: int
  nowRecord :: int
  writeResult :: write_result

text \<open>What one iteration prints.\<close>

datatype scan_output =
    Exiting
  | InvalidInput
  | DuplicateEntry
  | ErrorWriting
  | ErrorFlushing
  | Recorded "string list"

definition scanIteration ::
  "location \<Rightarrow> scan_state \<Rightarrow> scan_input \<Rightarrow> panic + (scan_state \<times> scan_output)" where
  "scanIteration loc st inp =
     (if barcodeID inp = ''exit'' then Inr (st, Exiting)
      else if \<not> numRegex (barcodeID inp) then Inr (st, InvalidInput)
      else case checkRecentDuplicate (seekOk inp) (store st) (nowCheck inp) (barcodeID inp) of
             Inl p \<Rightarrow> Inl p
           | Inr True \<Rightarrow> Inr (st, DuplicateEntry)
           | Inr False \<Rightarrow>
               let now = nowRecord inp;
                   newDay = (formatDate loc now \<noteq> currentDate st);
                   count = wrap64 ((if newDay then 0 else dailyCount st) + 1);
                   record = [formatTimestamp loc now, barcodeID inp, sprintf_d count];
                   st1 = st\<lparr>currentDate := (if newDay then formatDate loc now else currentDate st),
                            dailyCount := count\<rparr>
               in if writerFailed st \<or> writeResult inp = WriteFails
                  then Inr (st1\<lparr>writerFailed := True\<rparr>, ErrorWriting)
                  else if writeResult inp = FlushFails
                  then Inr (st1\<lparr>writerFailed := True\<rparr>, ErrorFlushing)
                  else Inr (st1\<lparr>store := writeAtEnd (store st) record\<rparr>, Recorded record))"

text \<open>
  The loop of \<open>runScanMode\<close> over the inputs it is given: it stops at \<open>exit\<close>, and
  otherwise waits for more input when the list ends. The result is the state reached
  and what was printed, one output per iteration.
\<close>

fun scanLoop ::
  "location \<Rightarrow> scan_state \<Rightarrow> scan_input list \<Rightarrow> panic + (scan_state \<times> scan_output list)" where
  "scanLoop loc st [] = Inr (st, [])"
| "scanLoop loc st (inp # inps) =
     (case scanIteration loc st inp of
        Inl p \<Rightarrow> Inl p
      | Inr (st1, out) \<Rightarrow>
          if out = Exiting then Inr (st1, [out])
          else (case scanLoop loc st1 inps of
                  Inl p \<Rightarrow> Inl p
                | Inr (st2, outs) \<Rightarrow> Inr (st2, out # outs)))"

text \<open>
  The working directory: a name is free, a regular file with its lines, or a
  directory (which \<open>os.OpenFile\<close> for writing and \<open>os.Create\<close> refuse, and which
  cannot be read).
\<close>

datatype node = RegularFile "csvline list" | Directory

type_synonym filesystem = "string \<Rightarrow> node option"

text \<open>The file names in \<open>checkin.go\<close>.\<close>

definition scanStoreName :: string where
  "scanStoreName = ''scans.csv''"

definition exportStoreName :: string where
  "exportStoreName = ''scanned_barcodes.csv''"

text \<open>
  \<open>runScanMode\<close>: opens (or creates) the store, reads the daily count once, runs
  the loop. \<open>now0\<close> and \<open>seek0\<close> are the clock and the seek outcome of the start-up.
  The result is what was printed and the working directory afterwards, or \<open>None\<close>
  for the output when the store could not be opened.
\<close>

definition runScanMode ::
  "location \<Rightarrow> filesystem \<Rightarrow> int \<Rightarrow> bool \<Rightarrow> scan_input list
     \<Rightarrow> panic + (scan_output list option \<times> filesystem)" where
  "runScanMode loc fs now0 seek0 inps =
     (case fs scanStoreName of
        Some Directory \<Rightarrow> Inr (None, fs)
      | other \<Rightarrow>
          let ls = (case other of Some (RegularFile l) \<Rightarrow> l | _ \<Rightarrow> []);
              date0 = formatDate loc now0
          in case getDailyCount seek0 ls date0 of
               Inl p \<Rightarrow> Inl p
             | Inr count0 \<Rightarrow>
                 (case scanLoop loc \<lparr>store = ls, currentDate = date0, dailyCount = count0,
                                      writerFailed = False\<rparr> inps of
                    Inl p \<Rightarrow> Inl p
                  | Inr (st, outs) \<Rightarrow> Inr (Some outs, fs(scanStoreName \<mapsto> RegularFile (store st)))))"

section \<open>Export mode\<close>

text \<open>
  The loop that filters the records by time; \<open>filteredRecords\<close> is the slice the
  loop appends to.
\<close>

fun filterLoop ::
  "int \<Rightarrow> int \<Rightarrow> string list list \<Rightarrow> string list list \<Rightarrow> panic + string list list" where
  "filterLoop start end filteredRecords [] = Inr filteredRecords"
| "filterLoop start end filteredRecords (record # records) =
     (case record of
        [] \<Rightarrow> Inl IndexOutOfRange
      | field0 # rest \<Rightarrow>
          (case parseTimestamp field0 of
             None \<Rightarrow> filterLoop start end filteredRecords records
           | Some recordTime \<Rightarrow>
               if (recordTime = start \<or> start < recordTime) \<and> recordTime < end
               then filterLoop start end (filteredRecords @ [record]) records
               else filterLoop start end filteredRecords records))"

text \<open>
  \<open>start.Add(24 * time.Hour).Add(-time.Second)\<close> and the same on the parsed end
  date: the upper bound of the filter.
\<close>

definition endOfDay :: "int \<Rightarrow> int" where
  "endOfDay midnight = midnight + 24 * 3600 * 1000000000 - 1000000000"

definition exportFileName :: "string \<Rightarrow> string \<Rightarrow> nat \<Rightarrow> string" where
  "exportFileName startDate endDate n =
     (if endDate = [] then ''export_'' @ startDate @ ''_'' @ sprintf_d (int n) @ ''_records.csv''
      else ''export_'' @ startDate @ ''_to_'' @ endDate @ ''_'' @ sprintf_d (int n)
           @ ''_records.csv'')"

text \<open>What \<open>runExportMode\<close> prints.\<close>

datatype export_output =
    ErrorOpeningFile
  | ErrorReadingCSV
  | ErrorParsingStartDate
  | ErrorParsingEndDate
  | NoRecordsFound
  | ErrorCreatingExportFile
  | ErrorWritingExportFile
  | Exported nat string

text \<open>
  \<open>runExportMode(startDate, endDate)\<close> reading the store \<open>name\<close>. \<open>writeOk\<close> is the
  outcome of \<open>writer.WriteAll\<close>; a failed write leaves the created file behind,
  modelled as empty. The result is what was printed and the working directory
  afterwards.
\<close>

definition runExportModeOn ::
  "string \<Rightarrow> location \<Rightarrow> bool \<Rightarrow> filesystem \<Rightarrow> string \<Rightarrow> string
     \<Rightarrow> panic + (export_output \<times> filesystem)" where
  "runExportModeOn name loc writeOk fs startDate endDate =
     (case fs name of
        None \<Rightarrow> Inr (ErrorOpeningFile, fs)
      | Some Directory \<Rightarrow> Inr (ErrorReadingCSV, fs)
      | Some (RegularFile ls) \<Rightarrow>
          (case ReadAll ls of
             None \<Rightarrow> Inr (ErrorReadingCSV, fs)
           | Some records \<Rightarrow>
               (case parseDateInLocation loc startDate of
                  None \<Rightarrow> Inr (ErrorParsingStartDate, fs)
                | Some start \<Rightarrow>
                    (case (if endDate = [] then Some start
                           else parseDateInLocation loc endDate) of
                       None \<Rightarrow> Inr (ErrorParsingEndDate, fs)
                     | Some endMidnight \<Rightarrow>
                         (case filterLoop start (endOfDay endMidnight) [] records of
                            Inl p \<Rightarrow> Inl p
                          | Inr filteredRecords \<Rightarrow>
                              if length filteredRecords = 0 then Inr (NoRecordsFound, fs)
                              else let filename = exportFileName startDate endDate
                                                    (length filteredRecords)
                                   in if fs filename = Some Directory
                                      then Inr (ErrorCreatingExportFile, fs)
                                      else if \<not> writeOk
                                      then Inr (ErrorWritingExportFile,
                                                fs(filename \<mapsto> RegularFile []))
                                      else Inr (Exported (length filteredRecords) filename,
                                                fs(filename \<mapsto> RegularFile
                                                     (map Fields filteredRecords))))))))"

text \<open>\<open>runExportMode\<close> of \<open>checkin.go\<close>.\<close>

definition runExportMode ::
  "location \<Rightarrow> bool \<Rightarrow> filesystem \<Rightarrow> string \<Rightarrow> string \<Rightarrow> panic + (export_output \<times> filesystem)" where
  "runExportMode = runExportModeOn exportStoreName"

section \<open>The second variant of the program\<close>

text \<open>
  The repository holds a second, shorter variant of the program. Its
  \<open>runExportMode\<close> is the one above, reading \<open>scans.csv\<close>. Its \<open>runScanMode\<close> opens
  \<open>scans.csv\<close> for appending only, checks no duplicates and keeps no count: a record
  is the timestamp and the barcode.
\<close>

definition runExportMode2 ::
  "location \<Rightarrow> bool \<Rightarrow> filesystem \<Rightarrow> string \<Rightarrow> string \<Rightarrow> panic + (export_output \<times> filesystem)" where
  "runExportMode2 = runExportModeOn ''scans.csv''"

record scan_state2 =
  store2 :: "csvline list"
  writerFailed2 :: bool

definition scanIteration2 ::
  "location \<Rightarrow> scan_state2 \<Rightarrow> scan_input \<Rightarrow> scan_state2 \<times> scan_output" where
  "scanIteration2 loc st inp =
     (if barcodeID inp = ''exit'' then (st, Exiting)
      else if \<not> numRegex (barcodeID inp) then (st, InvalidInput)
      else let record = [formatTimestamp loc (nowRecord inp), barcodeID inp]
           in if writerFailed2 st \<or> writeResult inp = WriteFails
              then (st\<lparr>writerFailed2 := True\<rparr>, ErrorWriting)
              else if writeResult inp = FlushFails
              then (st\<lparr>writerFailed2 := True\<rparr>, ErrorFlushing)
              else (st\<lparr>store2 := writeAtEnd (store2 st) record\<rparr>, Recorded record))"

fun scanLoop2 ::
  "location \<Rightarrow> scan_state2 \<Rightarrow> scan_input list \<Rightarrow> scan_state2 \<times> scan_output list" where
  "scanLoop2 loc st [] = (st, [])"
| "scanLoop2 loc st (inp # inps) =
     (case scanIteration2 loc st inp of
        (st1, out) \<Rightarrow>
          if out = Exiting then (st1, [out])
          else (case scanLoop2 loc st1 inps of (st2, outs) \<Rightarrow> (st2, out # outs)))"

definition runScanMode2 ::
  "location \<Rightarrow> filesystem \<Rightarrow> scan_input list \<Rightarrow> scan_output list option \<times> filesystem" where
  "runScanMode2 loc fs inps =
     (case fs ''scans.csv'' of
        Some Directory \<Rightarrow> (None, fs)
      | other \<Rightarrow>
          let ls = (case other of Some (RegularFile l) \<Rightarrow> l | _ \<Rightarrow> [])
          in case scanLoop2 loc \<lparr>store2 = ls, writerFailed2 = False\<rparr> inps of
               (st, outs) \<Rightarrow> (Some outs, fs(''scans.csv'' \<mapsto> RegularFile (store2 st))))"

section \<open>What the loops compute\<close>

text \<open>
  The condition under which the export loop keeps a record: its first field parses
  as a timestamp that is at or after \<open>start\<close> and before \<open>end\<close>.
\<close>

definition recordMatches :: "int \<Rightarrow> int \<Rightarrow> string list \<Rightarrow> bool" where
  "recordMatches start end record =
     (case record of
        [] \<Rightarrow> False
      | field0 # rest \<Rightarrow>
          (case parseTimestamp field0 of
             None \<Rightarrow> False
           | Some recordTime \<Rightarrow> (recordTime = start \<or> start < recordTime) \<and> recordTime < end))"

text \<open>
  The condition under which the loop of \<open>checkRecentDuplicate\<close> answers true at a
  record: its first field parses as a timestamp later than \<open>twoHoursAgo\<close> and its
  second field is the barcode.
\<close>

definition recentDuplicate :: "int \<Rightarrow> string \<Rightarrow> string list \<Rightarrow> bool" where
  "recentDuplicate twoHoursAgo barcode r =
     (case r of
        field0 # field1 # rest \<Rightarrow>
          (case parseTimestamp field0 of
             None \<Rightarrow> False
           | Some recordTime \<Rightarrow> field1 = barcode \<and> twoHoursAgo < recordTime)
      | _ \<Rightarrow> False)"

text \<open>
  The specification's sequence for a scan, in its words: one more than the maximum
  sequence value among the stored records whose date prefix is today's date, or 1 when
  there is none. The sequence values of a list of records are the third fields that
  are integers.
\<close>

definition todaysSequences :: "string \<Rightarrow> string list list \<Rightarrow> int list" where
  "todaysSequences today records =
     List.map_filter
       (\<lambda>r. if 2 < length r \<and> take 10 (r ! 0) = today then strconv_Atoi (r ! 2) else None)
       records"

definition specSequence :: "string \<Rightarrow> string list list \<Rightarrow> int" where
  "specSequence today records =
     (if todaysSequences today records = [] then 1
      else 1 + Max (set (todaysSequences today records)))"

text \<open>
  A scan record of the specification's data model: three fields, a timestamp of the
  shape above, a barcode of digits and a positive integer sequence.
\<close>

definition scanRecord :: "string list \<Rightarrow> bool" where
  "scanRecord r =
     (length r = 3 \<and> timestampShaped (r ! 0) \<and> numRegex (r ! 1)
      \<and> (case strconv_Atoi (r ! 2) of None \<Rightarrow> False | Some n \<Rightarrow> 0 < n))"

text \<open>The records among what a run of the scan loop printed, in order.\<close>

fun recordsOf :: "scan_output list \<Rightarrow> string list list" where
  "recordsOf [] = []"
| "recordsOf (Recorded r # outs) = r # recordsOf outs"
| "recordsOf (out # outs) = recordsOf outs"


section \<open>Example inputs\<close>

text \<open>The location UTC, and a working directory whose export store holds three records.\<close>

definition utc :: location where
  "utc = (\<lambda>unix. 0)"

definition octoberStore :: "csvline list" where
  "octoberStore =
     [Fields [''2024-10-24T00:00:00+00:00'', ''1001'', ''1''],
      Fields [''2024-10-26T23:59:58+00:00'', ''1002'', ''1''],
      Fields [''2024-10-26T23:59:59+00:00'', ''1003'', ''2'']]"

definition octoberDir :: filesystem where
  "octoberDir = Map.empty(exportStoreName \<mapsto> RegularFile octoberStore)"


text \<open>One accepted scan at 2024-10-25T10:00:00Z.\<close>

definition morning :: int where
  "morning = 1729850400000000000"

definition scanOnce :: "scan_input list" where
  "scanOnce =
     [\<lparr>barcodeID = ''12345'', seekOk = True, nowCheck = morning, nowRecord = morning,
       writeResult = WriteOk\<rparr>]"

text \<open>
  An input whose seek and write succeed and whose two clock readings agree; a process
  that has recorded barcode 777 at 23:30 and is asked again at 00:15 the next day; and
  a process with an empty store, before and after its first scan.
\<close>

definition scanAt :: "string \<Rightarrow> int \<Rightarrow> scan_input" where
  "scanAt b t = \<lparr>barcodeID = b, seekOk = True, nowCheck = t, nowRecord = t, writeResult = WriteOk\<rparr>"

definition eveningState :: scan_state where
  "eveningState =
     \<lparr>store = [Fields [''2024-10-25T23:30:00+00:00'', ''777'', ''4'']],
      currentDate = ''2024-10-25'', dailyCount = 4, writerFailed = False\<rparr>"

definition afterMidnight :: int where
  "afterMidnight = 1729901700000000000"

definition morningState :: scan_state where
  "morningState = \<lparr>store = [], currentDate = ''2024-10-25'', dailyCount = 0, writerFailed = False\<rparr>"

definition afterFirst :: scan_state where
  "afterFirst =
     \<lparr>store = [Fields [''2024-10-25T10:00:00+00:00'', ''12345'', ''1'']],
      currentDate = ''2024-10-25'', dailyCount = 1, writerFailed = False\<rparr>"

text \<open>
  Two scans of one barcode, at 10:00:00.999999999 and at 12:00:00.5 of 2024-10-25,
  less than two hours apart.
\<close>

definition scanTwice :: "scan_input list" where
  "scanTwice =
     [scanAt ''12345'' (morning + 999999999), scanAt ''12345'' (morning + 7200500000000)]"

text \<open>A process that has recorded barcode 777 at 00:05 of 2024-10-25, and 20:00 of that day.\<close>

definition earlyState :: scan_state where
  "earlyState =
     \<lparr>store = [Fields [''2024-10-25T00:05:00+00:00'', ''777'', ''1'']],
      currentDate = ''2024-10-25'', dailyCount = 1, writerFailed = False\<rparr>"

definition evening :: int where
  "evening = 1729886400000000000"

text \<open>
  A process whose store is the single line \<open>2024-10-25T09:00:00+00:00,1,1\<close> with no
  newline at its end, and two scans of barcode 42, at 10:00 and at 10:01.
\<close>

definition unfinishedState :: scan_state where
  "unfinishedState =
     \<lparr>store = [NoNewline [''2024-10-25T09:00:00+00:00'', ''1''] ''1'' False],
      currentDate = ''2024-10-25'', dailyCount = 1, writerFailed = False\<rparr>"

definition scanAgain :: "scan_input list" where
  "scanAgain = [scanAt ''42'' morning, scanAt ''42'' (morning + 60000000000)]"

text \<open>
  A store with one record written at the offset +02:00, at 2024-10-25T22:30:00Z, so
  that its date prefix is 2024-10-26; a process in UTC started at 23:00 of 2024-10-25
  that scans barcode 222 at 00:10 of 2024-10-26.
\<close>

definition otherZoneDir :: filesystem where
  "otherZoneDir =
     Map.empty(scanStoreName \<mapsto> RegularFile [Fields [''2024-10-26T00:30:00+02:00'', ''111'', ''5'']])"

definition lateEvening :: int where
  "lateEvening = 1729897200000000000"

definition tenPastMidnight :: int where
  "tenPastMidnight = 1729901400000000000"

text \<open>
  A store with one record of two fields, as the second variant writes them, and two
  scans, at 10:00 and 10:01 of that day.
\<close>

definition twoColumnDir :: filesystem where
  "twoColumnDir =
     Map.empty(scanStoreName \<mapsto> RegularFile [Fields [''2024-10-25T09:00:00+00:00'', ''111'']])"

definition scanTwoBarcodes :: "scan_input list" where
  "scanTwoBarcodes = [scanAt ''222'' morning, scanAt ''333'' (morning + 60000000000)]"







section \<open>The calendar, and parsing what was formatted\<close>

lemma div_bounds: "0 < d \<Longrightarrow> d * (x div d) \<le> x \<and> x < d * (x div d) + (d::int)"
  using pos_mod_bound[of d x] pos_mod_sign[of d x] mult_div_mod_eq[of d x] by linarith

lemma min3: "0 \<le> (c::int) \<Longrightarrow> c \<le> 4 \<Longrightarrow> c - c div 4 = (if c = 4 then 3 else c)"
  by presburger

lemma absYearDay_correct:
  assumes "absYearDay z = (y, yd)"
  shows "0 \<le> yd \<and> yd < (if isLeap y then 366 else 365) \<and> daysSinceEpoch y + yd = z"
proof -
  define n400 where "n400 = z div 146097"
  define d1 where "d1 = z - 146097 * n400"
  define c where "c = d1 div 36524"
  define n100 where "n100 = c - c div 4"
  define d2 where "d2 = d1 - 36524 * n100"
  define n4 where "n4 = d2 div 1461"
  define d3 where "d3 = d2 - 1461 * n4"
  define e where "e = d3 div 365"
  define n1 where "n1 = e - e div 4"
  define d4 where "d4 = d3 - 365 * n1"
  have y: "y = 1 + 400 * n400 + 100 * n100 + 4 * n4 + n1" and yd: "yd = d4"
    using assms unfolding absYearDay_def Let_def n400_def d1_def c_def n100_def d2_def n4_def d3_def e_def n1_def d4_def
    by simp_all
  have b1: "0 \<le> d1 \<and> d1 < 146097" unfolding d1_def n400_def using div_bounds[of 146097 z] by linarith
  have qc: "36524 * c \<le> d1 \<and> d1 < 36524 * c + 36524" unfolding c_def using div_bounds[of 36524 d1] by linarith
  have bc: "0 \<le> c \<and> c \<le> 4" using b1 qc by linarith
  have n100: "n100 = (if c = 4 then 3 else c)" unfolding n100_def using bc min3 by blast
  have b100: "0 \<le> n100 \<and> n100 \<le> 3" using bc n100 by (auto split: if_splits)
  have b2: "0 \<le> d2 \<and> d2 \<le> 36524 \<and> (n100 < 3 \<longrightarrow> d2 < 36524)"
    using b1 bc qc n100 unfolding d2_def by (auto split: if_splits)
  have q4: "1461 * n4 \<le> d2 \<and> d2 < 1461 * n4 + 1461" unfolding n4_def using div_bounds[of 1461 d2] by linarith
  have b4: "0 \<le> n4 \<and> n4 \<le> 24" using b2 q4 by linarith
  have b3: "0 \<le> d3 \<and> d3 < 1461" unfolding d3_def using q4 by linarith
  have qe: "365 * e \<le> d3 \<and> d3 < 365 * e + 365" unfolding e_def using div_bounds[of 365 d3] by linarith
  have be: "0 \<le> e \<and> e \<le> 4" using b3 qe by linarith
  have n1: "n1 = (if e = 4 then 3 else e)" unfolding n1_def using be min3 by blast
  have b1': "0 \<le> n1 \<and> n1 \<le> 3" using be n1 by (auto split: if_splits)
  have bd4: "0 \<le> d4 \<and> d4 \<le> 365 \<and> (d4 = 365 \<longrightarrow> d3 = 1460 \<and> n1 = 3)"
    using b3 be qe n1 unfolding d4_def by (auto split: if_splits)
  have dse: "daysSinceEpoch y = 146097 * n400 + 36524 * n100 + 1461 * n4 + 365 * n1"
  proof -
    have a: "(y - 1) div 400 = n400"
      by (rule int_div_pos_eq[where r = "100 * n100 + 4 * n4 + n1"]) (use y b100 b4 b1' in linarith)+
    have b: "(y - 1 - 400 * n400) div 100 = n100"
      by (rule int_div_pos_eq[where r = "4 * n4 + n1"]) (use y b100 b4 b1' in linarith)+
    have c: "(y - 1 - 400 * n400 - 100 * n100) div 4 = n4"
      by (rule int_div_pos_eq[where r = "n1"]) (use y b100 b4 b1' in linarith)+
    show ?thesis unfolding daysSinceEpoch_def Let_def a b c using y by simp
  qed
  have sum: "daysSinceEpoch y + yd = z"
    unfolding dse yd d4_def d3_def d2_def d1_def by simp
  have leap: "isLeap y" if h: "d4 = 365"
  proof -
    from h have n13: "n1 = 3" and d3: "d3 = 1460" using bd4 by auto
    have "y = 4 * (100 * n400 + 25 * n100 + n4 + 1)" using y n13 by simp
    then have m4: "y mod 4 = 0" by simp
    have "y mod 100 \<noteq> 0 \<or> y mod 400 = 0"
    proof (cases "n4 = 24")
      case True
      then have "d2 = 36524" using d3 unfolding d3_def by simp
      then have "n100 = 3" using b2 b100 by linarith
      then have "y = 400 * (n400 + 1)" using y n13 True by simp
      then show ?thesis by simp
    next
      case False
      then have lt: "n4 \<le> 23" using b4 by linarith
      have yy: "y = 100 * (4 * n400 + n100) + (4 * n4 + 4)" using y n13 by simp
      have "y mod 100 = 4 * n4 + 4"
        by (rule int_mod_pos_eq[OF yy]) (use lt b4 in linarith)+
      then show ?thesis using b4 by linarith
    qed
    then show "isLeap y" using m4 by (simp add: isLeap_def)
  qed
  show ?thesis using bd4 leap sum yd by (cases "d4 = 365") auto
qed




lemma monthDay_correct:
  assumes "0 \<le> yd" and "yd < (if isLeap y then 366 else 365)" and "monthDay y yd = (m, d)"
  shows "1 \<le> m \<and> m \<le> 12 \<and> 1 \<le> d \<and> d \<le> daysIn m y
         \<and> daysBefore (m - 1) + (if isLeap y \<and> 3 \<le> m then 1 else 0) + (d - 1) = yd"
proof (cases "isLeap y \<and> yd = 59")
  case True
  then show ?thesis using assms by (simp add: monthDay_def daysIn_def daysBefore_def)
next
  case False
  define day where "day = (if isLeap y \<and> 59 < yd then yd - 1 else yd)"
  define k where "k = day div 31"
  have bd: "0 \<le> day \<and> day \<le> 364" using assms False unfolding day_def by (auto split: if_splits)
  have qk: "31 * k \<le> day \<and> day < 31 * k + 31" unfolding k_def using div_bounds[of 31 day] by linarith
  have "0 \<le> k \<and> k \<le> 11" using bd qk by linarith
  then have ks: "k = 0 \<or> k = 1 \<or> k = 2 \<or> k = 3 \<or> k = 4 \<or> k = 5 \<or> k = 6 \<or> k = 7 \<or> k = 8 \<or> k = 9 \<or> k = 10 \<or> k = 11"
    by arith
  have md: "(m, d) = (let e = daysBefore (k + 1) in if e \<le> day then (k + 2, day - e + 1) else (k + 1, day - daysBefore k + 1))"
    using assms(3) False unfolding monthDay_def Let_def day_def k_def by auto
  note nf = False
  show ?thesis
    using ks md qk bd nf unfolding day_def
    by (elim disjE) (auto simp: Let_def daysBefore_def daysIn_def split: if_splits)
qed



lemma below_ten:
  "(d::nat) < 10 \<Longrightarrow> d = 0 \<or> d = 1 \<or> d = 2 \<or> d = 3 \<or> d = 4 \<or> d = 5 \<or> d = 6 \<or> d = 7 \<or> d = 8 \<or> d = 9"
  by arith

lemma digitVal_digitChar:
  assumes "d < 10"
  shows "digitVal (digitChar d) = d"
  using below_ten[OF assms] by (elim disjE) (simp_all add: digitVal_def digitChar_def digitRow_def)

lemma isDigit_digitChar: "isDigit (digitChar d)"
proof -
  have "d mod 10 < 10" by simp
  from below_ten[OF this] show ?thesis
    by (elim disjE) (simp_all add: isDigit_def digitChar_def digitRow_def)
qed

lemma digitsOf_lt10: "n < 10 \<Longrightarrow> digitsOf n = [digitChar n]"
  by (simp add: digitsOf.simps)

lemma digitsOf_ge10: "10 \<le> n \<Longrightarrow> digitsOf n = digitsOf (n div 10) @ [digitChar (n mod 10)]"
  by (subst digitsOf.simps) simp

lemma digitsOf_2:
  assumes "n < 100"
  shows "replicate (2 - length (digitsOf n)) (CHR ''0'') @ digitsOf n
         = [digitChar (n div 10), digitChar (n mod 10)]"
proof (cases "n < 10")
  case True
  then show ?thesis by (simp add: digitsOf_lt10 digitChar_def digitRow_def)
next
  case False
  then have a: "10 \<le> n" and b: "n div 10 < 10" using assms by arith+
  have "digitsOf n = [digitChar (n div 10), digitChar (n mod 10)]"
    using digitsOf_ge10[OF a] digitsOf_lt10[OF b] by simp
  then show ?thesis by simp
qed

lemma digitsOf_4:
  assumes "n < 10000"
  shows "replicate (4 - length (digitsOf n)) (CHR ''0'') @ digitsOf n
         = [digitChar (n div 1000), digitChar (n div 100 mod 10), digitChar (n div 10 mod 10), digitChar (n mod 10)]"
proof -
  consider "n < 10" | "10 \<le> n \<and> n < 100" | "100 \<le> n \<and> n < 1000" | "1000 \<le> n" by linarith
  then show ?thesis
  proof cases
    case 1
    then show ?thesis by (simp add: digitsOf_lt10 digitChar_def digitRow_def numeral_3_eq_3)
  next
    case 2
    then have a: "10 \<le> n" and b: "n div 10 < 10" and c: "n div 100 = 0" "n div 1000 = 0" by arith+
    have "digitsOf n = [digitChar (n div 10), digitChar (n mod 10)]"
      using digitsOf_ge10[OF a] digitsOf_lt10[OF b] by simp
    moreover have "n div 10 mod 10 = n div 10" using b by simp
    ultimately show ?thesis using c by (simp add: digitChar_def digitRow_def numeral_2_eq_2)
  next
    case 3
    then have a: "10 \<le> n" and a2: "10 \<le> n div 10" and b: "n div 10 div 10 < 10" and c: "n div 1000 = 0"
      by arith+
    have e: "n div 10 div 10 = n div 100" by (simp add: div_mult2_eq)
    have "digitsOf n = [digitChar (n div 100), digitChar (n div 10 mod 10), digitChar (n mod 10)]"
      using digitsOf_ge10[OF a] digitsOf_ge10[OF a2] digitsOf_lt10[OF b] e by simp
    moreover have "n div 100 mod 10 = n div 100" using b e by simp
    ultimately show ?thesis using c by (simp add: digitChar_def digitRow_def)
  next
    case 4
    then have a: "10 \<le> n" and a2: "10 \<le> n div 10" and a3: "10 \<le> n div 10 div 10"
      and b: "n div 10 div 10 div 10 < 10"
      using assms by arith+
    have e: "n div 10 div 10 = n div 100" "n div 10 div 10 div 10 = n div 1000" by (simp_all add: div_mult2_eq)
    have "digitsOf n = [digitChar (n div 1000), digitChar (n div 100 mod 10), digitChar (n div 10 mod 10), digitChar (n mod 10)]"
      using digitsOf_ge10[OF a] digitsOf_ge10[OF a2] digitsOf_ge10[OF a3] digitsOf_lt10[OF b] e by simp
    then show ?thesis by simp
  qed
qed

lemma appendInt2: "n < 100 \<Longrightarrow> appendInt (int n) 2 = [digitChar (n div 10), digitChar (n mod 10)]"
  using digitsOf_2[of n] by (simp add: appendInt_def Let_def)

lemma appendInt4:
  "n < 10000 \<Longrightarrow> appendInt (int n) 4
     = [digitChar (n div 1000), digitChar (n div 100 mod 10), digitChar (n div 10 mod 10), digitChar (n mod 10)]"
  using digitsOf_4[of n] by (simp add: appendInt_def Let_def)

lemma getnum2:
  "a < 10 \<Longrightarrow> b < 10 \<Longrightarrow> getnum (digitChar a # digitChar b # r) fx = Some (int (a * 10 + b), r)"
  by (simp add: getnum_def isDigit_digitChar digitVal_digitChar)

lemma parseYear4:
  assumes "a < 10" "b < 10" "c < 10" "d < 10"
  shows "parseYear (digitChar a # digitChar b # digitChar c # digitChar d # r)
         = Some (int (a * 1000 + b * 100 + c * 10 + d), r)"
  using assms by (simp add: parseYear_def isDigit_digitChar valOf_def digitVal_digitChar)

lemma four_digits:
  "(Y::nat) div 1000 * 1000 + Y div 100 mod 10 * 100 + Y div 10 mod 10 * 10 + Y mod 10 = Y"
proof -
  define a b c d p q where "a = Y div 1000" and "b = Y div 100 mod 10" and "c = Y div 10 mod 10"
    and "d = Y mod 10" and "p = Y div 100" and "q = Y div 10"
  have "p div 10 = a" "q div 10 = p"
    unfolding a_def p_def q_def by (simp_all add: div_mult2_eq[symmetric])
  then have "p = a * 10 + b" "q = p * 10 + c" "Y = q * 10 + d"
    unfolding b_def c_def d_def p_def[symmetric] q_def[symmetric]
    using div_mult_mod_eq[of p 10] div_mult_mod_eq[of q 10] div_mult_mod_eq[of Y 10] q_def
    by simp_all
  then have "a * 1000 + b * 100 + c * 10 + d = Y" by simp
  then show ?thesis unfolding a_def b_def c_def d_def .
qed

lemma parseYMD_raw:
  assumes "a < 10" "b < 10" "c < 10" "d < 10" "e < 10" "f < 10" "g < 10" "h < 10"
  shows "parseYMD ([digitChar a, digitChar b, digitChar c, digitChar d, CHR ''-'', digitChar e,
                    digitChar f, CHR ''-'', digitChar g, digitChar h] @ rest)
         = (if int (e * 10 + f) \<le> 0 \<or> 12 < int (e * 10 + f) then None
            else Some ((int (a * 1000 + b * 100 + c * 10 + d), int (e * 10 + f), int (g * 10 + h)),
                       rest))"
  unfolding parseYMD_def
  by (simp add: parseYear4[OF assms(1-4)] getnum2[OF assms(5,6)] getnum2[OF assms(7,8)]
      skipChar_def del: of_nat_add of_nat_mult)

lemma parseYMD_dateChars:
  assumes "Y < 10000" and "1 \<le> M" and "M \<le> 12" and "D < 100"
  shows "parseYMD (dateChars Y M D @ rest) = Some ((int Y, int M, int D), rest)"
proof -
  have "M < 100" using assms(3) by linarith
  then have d: "Y div 1000 < 10" "Y div 100 mod 10 < 10" "Y div 10 mod 10 < 10" "Y mod 10 < 10"
    "M div 10 < 10" "M mod 10 < 10" "D div 10 < 10" "D mod 10 < 10"
    using assms(1,4) by (simp_all add: div_less_iff_less_mult)
  have e: "M div 10 * 10 + M mod 10 = M" "D div 10 * 10 + D mod 10 = D" by simp_all
  have c: "\<not> (int M \<le> 0 \<or> 12 < int M)" using assms(2,3) by linarith
  show ?thesis
    unfolding dateChars_def parseYMD_raw[OF d] four_digits e if_not_P[OF c] ..
qed

lemma daysIn_le_31:
  assumes "1 \<le> m" and "m \<le> 12"
  shows "daysIn m y \<le> 31"
proof -
  have "m = 1 \<or> m = 2 \<or> m = 3 \<or> m = 4 \<or> m = 5 \<or> m = 6 \<or> m = 7 \<or> m = 8 \<or> m = 9
        \<or> m = 10 \<or> m = 11 \<or> m = 12"
    using assms by arith
  then show ?thesis
    by (elim disjE) (simp_all add: daysIn_def daysBefore_def)
qed

lemma formatDate_dateChars:
  assumes ay: "absYearDay (localAbs loc t div 86400) = (y, yd)"
    and md: "monthDay y yd = (m, d)"
    and y0: "0 \<le> y" and y9: "y \<le> 9999"
  shows "formatDate loc t = dateChars (nat y) (nat m) (nat d)"
    and "1 \<le> m \<and> m \<le> 12 \<and> 1 \<le> d \<and> d \<le> daysIn m y"
proof -
  from absYearDay_correct[OF ay] have yd: "0 \<le> yd" "yd < (if isLeap y then 366 else 365)" by auto
  from monthDay_correct[OF yd md] show b: "1 \<le> m \<and> m \<le> 12 \<and> 1 \<le> d \<and> d \<le> daysIn m y" by simp
  have "d \<le> 31" using b daysIn_le_31[of m y] by linarith
  then have bn: "nat y < 10000" "nat m < 100" "nat d < 100" using b y0 y9 by linarith+
  have e: "int (nat y) = y" "int (nat m) = m" "int (nat d) = d" using b y0 by simp_all
  have a: "appendInt y 4 = [digitChar (nat y div 1000), digitChar (nat y div 100 mod 10),
                            digitChar (nat y div 10 mod 10), digitChar (nat y mod 10)]"
    "appendInt m 2 = [digitChar (nat m div 10), digitChar (nat m mod 10)]"
    "appendInt d 2 = [digitChar (nat d div 10), digitChar (nat d mod 10)]"
    using appendInt4[OF bn(1)] appendInt2[OF bn(2)] appendInt2[OF bn(3)] unfolding e by blast+
  show "formatDate loc t = dateChars (nat y) (nat m) (nat d)"
    by (simp add: formatDate_def ay md dateChars_def a)
qed

lemma parseFraction_sign:
  "c \<noteq> CHR ''.'' \<Longrightarrow> c \<noteq> CHR '','' \<Longrightarrow> parseFraction (c # r) = (0, c # r)"
  by (simp add: parseFraction_def)

lemma parseFraction_zoneChars: "parseFraction (zoneChars neg zh zm) = (0, zoneChars neg zh zm)"
  unfolding zoneChars_def by (rule parseFraction_sign) simp_all

lemma parseZone_raw:
  assumes "a < 10" "b < 10" "c < 10" "d < 10"
  shows "parseZone [sg, digitChar a, digitChar b, CHR '':'', digitChar c, digitChar d]
         = (if 24 < int (a * 10 + b) \<or> 60 < int (c * 10 + d) then None
            else if sg = CHR ''+'' then Some ((int (a * 10 + b) * 60 + int (c * 10 + d)) * 60, [])
            else if sg = CHR ''-'' then Some (- ((int (a * 10 + b) * 60 + int (c * 10 + d)) * 60), [])
            else None)"
  unfolding parseZone_def
  by (simp add: getnum2[OF assms(1,2)] getnum2[OF assms(3,4)] del: of_nat_add of_nat_mult)

lemma parseZone_zoneChars:
  assumes "zh \<le> 24" and "zm < 60"
  shows "parseZone (zoneChars neg zh zm)
         = Some (if neg then - ((int zh * 60 + int zm) * 60) else (int zh * 60 + int zm) * 60, [])"
proof -
  have "zh < 100" "zm < 100" using assms by linarith+
  then have zz: "zh div 10 < 10" "zh mod 10 < 10" and zm: "zm div 10 < 10" "zm mod 10 < 10"
    by (simp_all add: div_less_iff_less_mult)
  have e: "zh div 10 * 10 + zh mod 10 = zh" "zm div 10 * 10 + zm mod 10 = zm"
    by simp_all
  have c: "\<not> (24 < int zh \<or> 60 < int zm)" using assms by linarith
  show ?thesis
    unfolding zoneChars_def parseZone_raw[OF zz zm] e if_not_P[OF c]
    by (cases neg) simp_all
qed

lemma parseClock_raw:
  assumes "a < 10" "b < 10" "c < 10" "d < 10" "e < 10" "f < 10"
  shows "skipChar (CHR ''T'') ([CHR ''T'', digitChar a, digitChar b, CHR '':'', digitChar c,
                               digitChar d, CHR '':'', digitChar e, digitChar f] @ rest) \<bind> (\<lambda>v2.
           getnum v2 False \<bind> (\<lambda>(hour, v3).
           skipChar (CHR '':'') v3 \<bind> (\<lambda>v4.
           getnum v4 True \<bind> (\<lambda>(minute, v5).
           skipChar (CHR '':'') v5 \<bind> (\<lambda>v6.
           getnum v6 True \<bind> (\<lambda>(sec, v7). K hour minute sec v7))))))
         = K (int (a * 10 + b)) (int (c * 10 + d)) (int (e * 10 + f)) rest"
  by (simp add: skipChar_def getnum2[OF assms(1,2)] getnum2[OF assms(3,4)] getnum2[OF assms(5,6)]
      del: of_nat_add of_nat_mult)

lemma parseClock_clockChars:
  assumes "h < 24" and "mi < 60" and "s < 60"
  shows "skipChar (CHR ''T'') (clockChars h mi s @ rest) \<bind> (\<lambda>v2.
           getnum v2 False \<bind> (\<lambda>(hour, v3).
           skipChar (CHR '':'') v3 \<bind> (\<lambda>v4.
           getnum v4 True \<bind> (\<lambda>(minute, v5).
           skipChar (CHR '':'') v5 \<bind> (\<lambda>v6.
           getnum v6 True \<bind> (\<lambda>(sec, v7). K hour minute sec v7))))))
         = K (int h) (int mi) (int s) rest"
proof -
  have "h < 100" "mi < 100" "s < 100" using assms by linarith+
  then have hh: "h div 10 < 10" "h mod 10 < 10" and mm: "mi div 10 < 10" "mi mod 10 < 10"
    and ss: "s div 10 < 10" "s mod 10 < 10"
    by (simp_all add: div_less_iff_less_mult)
  have e: "h div 10 * 10 + h mod 10 = h" "mi div 10 * 10 + mi mod 10 = mi"
    "s div 10 * 10 + s mod 10 = s"
    by simp_all
  show ?thesis
    unfolding clockChars_def parseClock_raw[OF hh mm ss] e ..
qed

lemma parseTimestamp_chars:
  assumes "Y < 10000" and "1 \<le> M" and "M \<le> 12" and "1 \<le> D" and "int D \<le> daysIn (int M) (int Y)"
    and "h < 24" and "mi < 60" and "s < 60" and "zh \<le> 24" and "zm < 60"
  shows "parseTimestamp (dateChars Y M D @ clockChars h mi s @ zoneChars neg zh zm)
         = Some ((dateUnix (int Y) (int M) (int D) (int h) (int mi) (int s)
                  - (if neg then - ((int zh * 60 + int zm) * 60) else (int zh * 60 + int zm) * 60))
                 * 1000000000)"
proof -
  have "int D \<le> 31" using assms(2,3,5) daysIn_le_31[of "int M" "int Y"] by linarith
  then have D: "D < 100" by linarith
  have c: "\<not> 24 \<le> int h" "\<not> 60 \<le> int mi" "\<not> 60 \<le> int s" "\<not> int D < 1"
    "\<not> daysIn (int M) (int Y) < int D"
    using assms by linarith+
  show ?thesis
    unfolding parseTimestamp_def parseYMD_dateChars[OF assms(1,2,3) D]
    by (simp only: bind.bind_lunit prod.case parseClock_clockChars[OF assms(6,7,8)]
        parseFraction_zoneChars snd_conv fst_conv parseZone_zoneChars[OF assms(9,10)] c
        simp_thms if_False add_0_right)
qed

lemma appendInt2_int:
  assumes "0 \<le> x" and "x < 100"
  shows "appendInt x 2 = [digitChar (nat x div 10), digitChar (nat x mod 10)]"
proof -
  have "nat x < 100" using assms by linarith
  from appendInt2[OF this] show ?thesis using assms by simp
qed

lemma clock_fields:
  fixes sod :: int
  assumes "0 \<le> sod" and "sod < 86400"
  shows "0 \<le> sod div 3600 \<and> sod div 3600 < 24
         \<and> 0 \<le> sod mod 3600 div 60 \<and> sod mod 3600 div 60 < 60
         \<and> 0 \<le> sod mod 60 \<and> sod mod 60 < 60
         \<and> sod div 3600 * 3600 + sod mod 3600 div 60 * 60 + sod mod 60 = sod"
proof -
  define h r mi s where "h = sod div 3600" and "r = sod mod 3600" and "mi = r div 60" and "s = sod mod 60"
  have e1: "sod = 3600 * h + r" and br: "0 \<le> r" "r < 3600"
    unfolding h_def r_def by simp_all
  have rs: "r mod 60 = s" unfolding r_def s_def by (simp add: mod_mod_cancel)
  have e2: "r = 60 * mi + s" and bs: "0 \<le> s" "s < 60"
    unfolding mi_def rs[symmetric] by simp_all
  have "0 \<le> h" "h < 24" "0 \<le> mi" "mi < 60" using assms e1 br e2 bs by linarith+
  moreover have "h * 3600 + mi * 60 + s = sod" using e1 e2 by linarith
  ultimately show ?thesis using bs unfolding h_def mi_def r_def s_def by blast
qed

lemma formatClock_clockChars:
  fixes sod :: int
  assumes "0 \<le> sod" and "sod < 86400"
  shows "''T'' @ appendInt (sod div 3600) 2 @ '':'' @ appendInt ((sod mod 3600) div 60) 2 @ '':''
           @ appendInt (sod mod 60) 2
         = clockChars (nat (sod div 3600)) (nat (sod mod 3600 div 60)) (nat (sod mod 60))"
proof -
  define h mi s where "h = sod div 3600" and "mi = sod mod 3600 div 60" and "s = sod mod 60"
  have c: "0 \<le> h" "h < 100" "0 \<le> mi" "mi < 100" "0 \<le> s" "s < 100"
    using clock_fields[OF assms] unfolding h_def mi_def s_def by linarith+
  have "''T'' @ appendInt h 2 @ '':'' @ appendInt mi 2 @ '':'' @ appendInt s 2
        = clockChars (nat h) (nat mi) (nat s)"
    unfolding clockChars_def appendInt2_int[OF c(1,2)] appendInt2_int[OF c(3,4)]
      appendInt2_int[OF c(5,6)]
    by simp
  then show ?thesis unfolding h_def mi_def s_def .
qed

lemma zone_whole_minutes:
  fixes off :: int
  assumes "off mod 60 = 0"
  shows "(if off < 0 then - ((- off) div 60) else off div 60) = off div 60"
    and "off = 60 * (off div 60)"
proof -
  show e: "off = 60 * (off div 60)" using mult_div_mod_eq[of 60 off] assms by simp
  have "- off = 60 * (- (off div 60))" using e by simp
  then have "(- off) div 60 = - (off div 60)"
    by (metis nonzero_mult_div_cancel_left zero_neq_numeral)
  then show "(if off < 0 then - ((- off) div 60) else off div 60) = off div 60" by simp
qed

lemma formatZone_zoneChars:
  fixes off :: int
  assumes "\<bar>off\<bar> < 86400" and "off mod 60 = 0"
  shows "\<exists>zh zm. formatZone off = zoneChars (off < 0) zh zm \<and> zh \<le> 24 \<and> zm < 60
           \<and> (if off < 0 then - ((int zh * 60 + int zm) * 60) else (int zh * 60 + int zm) * 60) = off"
proof -
  define k where "k = off div 60"
  define a where "a = \<bar>k\<bar>"
  define zh zm where "zh = a div 60" and "zm = a mod 60"
  have z: "(if off < 0 then - ((- off) div 60) else off div 60) = k" and e: "off = 60 * k"
    unfolding k_def using zone_whole_minutes[OF assms(2)] by blast+
  have sg: "k < 0 \<longleftrightarrow> off < 0" using e by linarith
  have a0: "0 \<le> a" unfolding a_def by simp
  have ak: "a = (if off < 0 then - k else k)" unfolding a_def using sg by (simp add: abs_if)
  have a1: "a < 1440" using assms(1) e ak by (cases "off < 0") (simp_all add: abs_if)
  have e2: "a = 60 * zh + zm" and bz: "0 \<le> zm" "zm < 60" unfolding zh_def zm_def by simp_all
  have bh: "0 \<le> zh" "zh < 24" using e2 bz a0 a1 by linarith+
  have c: "0 \<le> zh" "zh < 100" "0 \<le> zm" "zm < 100" using bh bz by linarith+
  have f: "formatZone off = zoneChars (off < 0) (nat zh) (nat zm)"
    unfolding formatZone_def z Let_def zoneChars_def sg a_def[symmetric] zh_def[symmetric]
      zm_def[symmetric] appendInt2_int[OF c(1,2)] appendInt2_int[OF c(3,4)]
    by simp
  have v: "(if off < 0 then - ((int (nat zh) * 60 + int (nat zm)) * 60)
           else (int (nat zh) * 60 + int (nat zm)) * 60) = off"
    using e e2 ak bh bz by (cases "off < 0") simp_all
  have "nat zh \<le> 24" "nat zm < 60" using bh bz by linarith+
  then show ?thesis using f v by blast
qed

lemma formatTimestamp_structure:
  assumes "representable loc t"
  shows "\<exists>Y M D h mi s zh zm.
           formatDate loc t = dateChars Y M D
           \<and> formatTimestamp loc t
               = dateChars Y M D @ clockChars h mi s @ zoneChars (loc (unixSec t) < 0) zh zm
           \<and> Y < 10000 \<and> 1 \<le> M \<and> M \<le> 12 \<and> 1 \<le> D \<and> int D \<le> daysIn (int M) (int Y)
           \<and> h < 24 \<and> mi < 60 \<and> s < 60 \<and> zh \<le> 24 \<and> zm < 60
           \<and> dateUnix (int Y) (int M) (int D) (int h) (int mi) (int s)
               - (if loc (unixSec t) < 0 then - ((int zh * 60 + int zm) * 60)
                  else (int zh * 60 + int zm) * 60)
             = unixSec t"
proof -
  define off where "off = loc (unixSec t)"
  define a where "a = localAbs loc t"
  define sod where "sod = a mod 86400"
  define dn where "dn = a div 86400"
  obtain y yd where ay: "absYearDay dn = (y, yd)" by (cases "absYearDay dn") auto
  obtain m d where md: "monthDay y yd = (m, d)" by (cases "monthDay y yd") auto
  have ay': "absYearDay (localAbs loc t div 86400) = (y, yd)" using ay unfolding dn_def a_def .
  have yr: "0 \<le> y" "y \<le> 9999" and zo: "\<bar>off\<bar> < 86400" "off mod 60 = 0"
    using assms unfolding representable_def yearOf_def ay' off_def by simp_all
  note fd = formatDate_dateChars[OF ay' md yr]
  from absYearDay_correct[OF ay]
  have yd: "0 \<le> yd" "yd < (if isLeap y then 366 else 365)" and dse: "daysSinceEpoch y + yd = dn"
    by auto
  from monthDay_correct[OF yd md]
  have mdv: "daysBefore (m - 1) + (if isLeap y \<and> 3 \<le> m then 1 else 0) + (d - 1) = yd"
    by simp
  have bs: "0 \<le> sod" "sod < 86400" unfolding sod_def by simp_all
  note cf = clock_fields[OF bs]
  note fc = formatClock_clockChars[OF bs]
  from formatZone_zoneChars[OF zo] obtain zh zm where
    fz: "formatZone off = zoneChars (off < 0) zh zm" and zb: "zh \<le> 24" "zm < 60"
    and zv: "(if off < 0 then - ((int zh * 60 + int zm) * 60) else (int zh * 60 + int zm) * 60) = off"
    by blast
  define Y M D h mi s where "Y = nat y" and "M = nat m" and "D = nat d"
    and "h = nat (sod div 3600)" and "mi = nat (sod mod 3600 div 60)" and "s = nat (sod mod 60)"
  have iv: "int Y = y" "int M = m" "int D = d" "int h = sod div 3600"
    "int mi = sod mod 3600 div 60" "int s = sod mod 60"
    unfolding Y_def M_def D_def h_def mi_def s_def using yr fd(2) cf by simp_all
  have b1: "Y < 10000" "1 \<le> M" "M \<le> 12" "1 \<le> D" "h < 24" "mi < 60" "s < 60"
    unfolding Y_def M_def D_def h_def mi_def s_def using yr fd(2) cf by linarith+
  have b2: "int D \<le> daysIn (int M) (int Y)" unfolding iv using fd(2) by simp
  have f1: "formatDate loc t = dateChars Y M D" unfolding Y_def M_def D_def by (rule fd(1))
  have f2: "formatTimestamp loc t = dateChars Y M D @ clockChars h mi s @ zoneChars (off < 0) zh zm"
    unfolding formatTimestamp_def Let_def a_def[symmetric] sod_def[symmetric] f1
      off_def[symmetric] fz h_def mi_def s_def fc[symmetric]
    by simp
  have ae: "a = 86400 * dn + sod" unfolding dn_def sod_def by simp
  have au: "a = unixSec t + off + unixEpochDays * 86400"
    unfolding a_def localAbs_def off_def by simp
  have du: "dateUnix y m d (sod div 3600) (sod mod 3600 div 60) (sod mod 60)
            = (dn - unixEpochDays) * 86400 + sod"
  proof -
    have "dateUnix y m d (sod div 3600) (sod mod 3600 div 60) (sod mod 60)
          = (daysSinceEpoch y + yd - unixEpochDays) * 86400
            + (sod div 3600 * 3600 + sod mod 3600 div 60 * 60 + sod mod 60)"
      unfolding dateUnix_def Let_def mdv[symmetric] by (simp add: algebra_simps)
    then show ?thesis using cf dse by simp
  qed
  have v: "dateUnix (int Y) (int M) (int D) (int h) (int mi) (int s)
             - (if off < 0 then - ((int zh * 60 + int zm) * 60) else (int zh * 60 + int zm) * 60)
           = unixSec t"
    unfolding iv du zv using ae au by (simp add: algebra_simps)
  show ?thesis
    using f1 f2 b1 b2 zb v unfolding off_def by blast
qed

lemma parse_format:
  assumes "representable loc t"
  shows "parseTimestamp (formatTimestamp loc t) = Some (unixSec t * 1000000000)"
proof -
  from formatTimestamp_structure[OF assms] obtain Y M D h mi s zh zm where
    f: "formatTimestamp loc t
        = dateChars Y M D @ clockChars h mi s @ zoneChars (loc (unixSec t) < 0) zh zm"
    and b: "Y < 10000" "1 \<le> M" "M \<le> 12" "1 \<le> D" "int D \<le> daysIn (int M) (int Y)"
      "h < 24" "mi < 60" "s < 60" "zh \<le> 24" "zm < 60"
    and v: "dateUnix (int Y) (int M) (int D) (int h) (int mi) (int s)
             - (if loc (unixSec t) < 0 then - ((int zh * 60 + int zm) * 60)
                else (int zh * 60 + int zm) * 60)
           = unixSec t"
    by blast
  show ?thesis unfolding f parseTimestamp_chars[OF b] v ..
qed

lemma length_dateChars: "length (dateChars Y M D) = 10"
  by (simp add: dateChars_def)

lemma formatDate_prefix:
  assumes "representable loc t"
  shows "length (formatDate loc t) = 10" and "take 10 (formatTimestamp loc t) = formatDate loc t"
proof -
  from formatTimestamp_structure[OF assms] obtain Y M D where
    f: "formatDate loc t = dateChars Y M D"
    by blast
  show l: "length (formatDate loc t) = 10" unfolding f by (rule length_dateChars)
  have "\<exists>r. formatTimestamp loc t = formatDate loc t @ r"
    unfolding formatTimestamp_def Let_def by blast
  then show "take 10 (formatTimestamp loc t) = formatDate loc t" using l by auto
qed

lemma timestampShaped_chars:
  "timestampShaped (dateChars Y M D @ clockChars h mi s @ zoneChars neg zh zm)"
  unfolding timestampShaped_def dateChars_def clockChars_def zoneChars_def
  by (simp add: isDigit_digitChar)

lemma timestampShaped_format:
  assumes "representable loc t"
  shows "timestampShaped (formatTimestamp loc t)"
proof -
  from formatTimestamp_structure[OF assms] obtain Y M D h mi s zh zm where
    f: "formatTimestamp loc t
        = dateChars Y M D @ clockChars h mi s @ zoneChars (loc (unixSec t) < 0) zh zm"
    by blast
  show ?thesis unfolding f by (rule timestampShaped_chars)
qed

lemma valOf_snoc: "valOf (xs @ [c]) = 10 * valOf xs + digitVal c"
  by (simp add: valOf_def)

lemma digitsOf_props:
  "digitsOf n \<noteq> [] \<and> list_all isDigit (digitsOf n) \<and> valOf (digitsOf n) = n"
proof (induction n rule: digitsOf.induct)
  case (1 n)
  show ?case
  proof (cases "n < 10")
    case True
    then show ?thesis
      by (simp add: digitsOf_lt10 isDigit_digitChar valOf_def digitVal_digitChar)
  next
    case False
    then have ge: "10 \<le> n" by simp
    have m: "n mod 10 < 10" by simp
    show ?thesis
      using 1[OF False] unfolding digitsOf_ge10[OF ge]
      by (simp add: valOf_snoc isDigit_digitChar digitVal_digitChar[OF m])
  qed
qed

lemma isDigit_not_sign: "isDigit c \<Longrightarrow> c \<noteq> CHR ''-'' \<and> c \<noteq> CHR ''+''"
  by (auto simp: isDigit_def)

lemma Atoi_sprintf:
  assumes "0 \<le> n" and "n < 2 ^ 63"
  shows "strconv_Atoi (sprintf_d n) = Some n"
proof -
  define ds where "ds = digitsOf (nat n)"
  have p: "ds \<noteq> []" "list_all isDigit ds" "valOf ds = nat n"
    unfolding ds_def using digitsOf_props[of "nat n"] by blast+
  then have "isDigit (hd ds)" by (cases ds) auto
  then have h: "hd ds \<noteq> CHR ''-''" "hd ds \<noteq> CHR ''+''" using isDigit_not_sign by blast+
  have s: "sprintf_d n = ds" unfolding sprintf_d_def ds_def using assms(1) by simp
  show ?thesis
    unfolding s strconv_Atoi_def Let_def using p h assms by simp
qed

section \<open>The CSV reader and the export loop\<close>

lemma readRecords_nonempty: "readRecords n ls = Some records \<Longrightarrow> [] \<notin> set records"
  by (induction n ls arbitrary: records rule: readRecords.induct) (auto split: if_splits)

lemma ReadAll_nonempty: "ReadAll ls = Some records \<Longrightarrow> [] \<notin> set records"
  unfolding ReadAll_def by (rule readRecords_nonempty)

lemma filterLoop_filter:
  "[] \<notin> set records \<Longrightarrow>
   filterLoop start end acc records = Inr (acc @ filter (recordMatches start end) records)"
proof (induction records arbitrary: acc)
  case Nil
  then show ?case by simp
next
  case (Cons r records)
  then obtain field0 rest where r: "r = field0 # rest" by (cases r) auto
  show ?case using Cons r
    by (cases "parseTimestamp field0") (auto simp: recordMatches_def)
qed

text \<open>
  Once the store is read and the dates are parsed, \<open>runExportMode\<close> is decided by
  the records that match: the loop never panics on what the CSV reader returns.
\<close>

lemma runExportModeOn_filtered:
  assumes "fs name = Some (RegularFile ls)" and "ReadAll ls = Some records"
    and "parseDateInLocation loc startDate = Some start"
    and "(if endDate = [] then Some start else parseDateInLocation loc endDate) = Some endMidnight"
  shows "runExportModeOn name loc writeOk fs startDate endDate =
         (let filteredRecords = filter (recordMatches start (endOfDay endMidnight)) records;
              filename = exportFileName startDate endDate (length filteredRecords)
          in if filteredRecords = [] then Inr (NoRecordsFound, fs)
             else if fs filename = Some Directory then Inr (ErrorCreatingExportFile, fs)
             else if \<not> writeOk then Inr (ErrorWritingExportFile, fs(filename \<mapsto> RegularFile []))
             else Inr (Exported (length filteredRecords) filename,
                       fs(filename \<mapsto> RegularFile (map Fields filteredRecords))))"
  using assms filterLoop_filter[OF ReadAll_nonempty[OF assms(2)], of start "endOfDay endMidnight" "[]"]
  by (simp add: runExportModeOn_def Let_def)

lemma runExportModeOn_exported:
  assumes "fs name = Some (RegularFile ls)" and "ReadAll ls = Some records"
    and "parseDateInLocation loc startDate = Some start"
    and "(if endDate = [] then Some start else parseDateInLocation loc endDate) = Some endMidnight"
    and "matching = filter (recordMatches start (endOfDay endMidnight)) records"
    and "matching \<noteq> []"
    and "filename = exportFileName startDate endDate (length matching)"
    and "fs filename \<noteq> Some Directory"
  shows "runExportModeOn name loc True fs startDate endDate =
           Inr (Exported (length matching) filename,
                fs(filename \<mapsto> RegularFile (map Fields matching)))"
  using runExportModeOn_filtered[where fs = fs and name = name, OF assms(1-4)] assms(5-8)
  by (simp add: Let_def)

lemma ReadAll_octoberStore:
  "ReadAll octoberStore =
     Some [[''2024-10-24T00:00:00+00:00'', ''1001'', ''1''],
           [''2024-10-26T23:59:58+00:00'', ''1002'', ''1''],
           [''2024-10-26T23:59:59+00:00'', ''1003'', ''2'']]"
  by (simp add: ReadAll_def octoberStore_def)

lemma octoberDir_store: "octoberDir exportStoreName = Some (RegularFile octoberStore)"
  by (simp add: octoberDir_def)

lemma parse_2024_10_24: "parseDateInLocation utc ''2024-10-24'' = Some 1729728000000000000"
  by code_simp

lemma parse_2024_10_25: "parseDateInLocation utc ''2024-10-25'' = Some 1729814400000000000"
  by code_simp

lemma parse_2024_10_26: "parseDateInLocation utc ''2024-10-26'' = Some 1729900800000000000"
  by code_simp

section \<open>The loops of scan mode\<close>

lemma duplicateLoop_list_ex:
  "list_all (\<lambda>r. 2 \<le> length r) records \<Longrightarrow>
   duplicateLoop tha b records = Inr (list_ex (recentDuplicate tha b) records)"
proof (induction records)
  case Nil
  then show ?case by simp
next
  case (Cons r records)
  then obtain f0 f1 rest where r: "r = f0 # f1 # rest"
    by (cases r; cases "tl r") auto
  show ?case using Cons r
    by (cases "parseTimestamp f0") (auto simp: recentDuplicate_def)
qed

lemma maxCountLoop_Max:
  "list_all (\<lambda>r. r \<noteq> [] \<and> 10 \<le> length (r ! 0)) records \<Longrightarrow>
   maxCountLoop today acc records = Inr (Max (insert acc (set (todaysSequences today records))))"
proof (induction records arbitrary: acc)
  case Nil
  then show ?case by (simp add: todaysSequences_def map_filter_simps)
next
  case (Cons r records)
  then obtain f0 rest where r: "r = f0 # rest" and l: "10 \<le> length f0"
    by (cases r) auto
  have ih: "\<And>a. maxCountLoop today a records
                = Inr (Max (insert a (set (todaysSequences today records))))"
    using Cons by simp
  have fin: "finite (set (todaysSequences today records))" by simp
  show ?case
  proof (cases "take 10 f0 = today \<and> 2 < length r")
    case False
    then have "todaysSequences today (r # records) = todaysSequences today records"
      using r by (auto simp: todaysSequences_def map_filter_simps)
    then show ?thesis using False r l ih by auto
  next
    case True
    show ?thesis
    proof (cases "strconv_Atoi (r ! 2)")
      case None
      then have "todaysSequences today (r # records) = todaysSequences today records"
        using r True by (auto simp: todaysSequences_def map_filter_simps)
      then show ?thesis using True None r l ih by auto
    next
      case (Some n)
      then have t: "todaysSequences today (r # records) = n # todaysSequences today records"
        using r True by (auto simp: todaysSequences_def map_filter_simps)
      have m: "Max (insert acc (insert n (set (todaysSequences today records))))
               = Max (insert (max acc n) (set (todaysSequences today records)))"
        using fin by (cases "set (todaysSequences today records) = {}") (auto simp: max.assoc max.commute max.left_commute)
      show ?thesis using True Some r l ih t m
        by (auto simp: max_def insert_commute)
    qed
  qed
qed

lemma readRecords_append:
  assumes "readRecords n ls = Some records" and "fs \<noteq> []"
    and "list_all (\<lambda>r. length r = length fs) records" and "n = 0 \<or> n = length fs"
  shows "readRecords n (ls @ [Fields fs]) = Some (records @ [fs])"
  using assms
proof (induction n ls arbitrary: records rule: readRecords.induct)
  case (1 n)
  then show ?case by auto
next
  case (2 n ls)
  then show ?case by simp
next
  case (3 n ls)
  then show ?case by simp
next
  case (4 n ls)
  then show ?case by simp
next
  case (5 n gs ls)
  show ?case
  proof (cases "gs = []")
    case True
    then show ?thesis using 5 by simp
  next
    case False
    then obtain rest where rs: "readRecords (length gs) ls = Some rest" and r: "records = gs # rest"
      and n: "n = 0 \<or> length gs = n"
      using 5(3) by (auto split: if_splits)
    have lg: "length gs = length fs" using 5(5) r by simp
    have "readRecords (length gs) (ls @ [Fields fs]) = Some (rest @ [fs])"
      using 5(2)[OF False _ rs 5(4)] 5(5) r lg n by auto
    then show ?thesis using False n r by auto
  qed
next
  case (6 n init f quoted ls)
  define gs where "gs = init @ [f]"
  obtain rest where rs: "readRecords (length gs) ls = Some rest" and r: "records = gs # rest"
    and n: "n = 0 \<or> length gs = n"
    using 6(2) unfolding gs_def by (auto split: if_splits)
  have lg: "length gs = length fs" using 6(4) r by simp
  have "readRecords (length gs) (ls @ [Fields fs]) = Some (rest @ [fs])"
    using 6(1)[OF _ rs[unfolded gs_def] 6(3)] 6(4) r lg n unfolding gs_def by auto
  then show ?case using n r unfolding gs_def by auto
qed

lemma ReadAll_append:
  assumes "ReadAll ls = Some records" and "fs \<noteq> []"
    and "list_all (\<lambda>r. length r = length fs) records"
  shows "ReadAll (ls @ [Fields fs]) = Some (records @ [fs])"
  using readRecords_append[of 0 ls records fs] assms unfolding ReadAll_def by simp

lemma writeAtEnd_newline: "endsWithNewline ls \<Longrightarrow> writeAtEnd ls r = ls @ [Fields r]"
  by (auto simp: writeAtEnd_def endsWithNewline_def split: csvline.splits)

lemma endsWithNewline_append: "endsWithNewline (ls @ [Fields r])"
  by (simp add: endsWithNewline_def)

lemma numRegex_not_exit: "numRegex b \<Longrightarrow> b \<noteq> ''exit''"
  by (auto simp: numRegex_def isDigit_def)

lemma checkRecentDuplicate_list_ex:
  assumes "ReadAll ls = Some records" and "list_all (\<lambda>r. 2 \<le> length r) records"
  shows "checkRecentDuplicate True ls now b
         = Inr (list_ex (recentDuplicate (now - twoHours) b) records)"
  using assms duplicateLoop_list_ex[OF assms(2)] by (simp add: checkRecentDuplicate_def)

lemma recentDuplicate_iff:
  "recentDuplicate tha b r
   \<longleftrightarrow> (\<exists>ts rest t. r = ts # b # rest \<and> parseTimestamp ts = Some t \<and> tha < t)"
  by (auto simp: recentDuplicate_def split: list.splits option.splits)

lemma scanIteration_duplicate:
  assumes "numRegex (barcodeID inp)"
  shows "(scanIteration loc st inp = Inr (st1, DuplicateEntry))
         \<longleftrightarrow> (st1 = st \<and> checkRecentDuplicate (seekOk inp) (store st) (nowCheck inp) (barcodeID inp)
                            = Inr True)"
  using assms numRegex_not_exit[OF assms]
  by (auto simp: scanIteration_def Let_def split: sum.splits bool.splits)

lemma scanIteration_accepted:
  assumes "numRegex (barcodeID inp)"
    and "checkRecentDuplicate (seekOk inp) (store st) (nowCheck inp) (barcodeID inp) = Inr False"
    and "\<not> writerFailed st" and "writeResult inp = WriteOk"
  shows "scanIteration loc st inp =
         (let newDay = (formatDate loc (nowRecord inp) \<noteq> currentDate st);
              count = wrap64 ((if newDay then 0 else dailyCount st) + 1);
              r = [formatTimestamp loc (nowRecord inp), barcodeID inp, sprintf_d count]
          in Inr (st\<lparr>currentDate := (if newDay then formatDate loc (nowRecord inp)
                                      else currentDate st),
                      dailyCount := count, store := writeAtEnd (store st) r\<rparr>, Recorded r))"
  using assms numRegex_not_exit[OF assms(1)]
  by (simp add: scanIteration_def Let_def)

lemma scanIteration_recorded:
  assumes "scanIteration loc st inp = Inr (st1, Recorded r)"
  shows "numRegex (barcodeID inp)
         \<and> checkRecentDuplicate (seekOk inp) (store st) (nowCheck inp) (barcodeID inp) = Inr False
         \<and> \<not> writerFailed st \<and> writeResult inp = WriteOk
         \<and> r = [formatTimestamp loc (nowRecord inp), barcodeID inp,
                sprintf_d (wrap64 ((if formatDate loc (nowRecord inp) \<noteq> currentDate st then 0
                                    else dailyCount st) + 1))]
         \<and> store st1 = writeAtEnd (store st) r \<and> \<not> writerFailed st1"
  using assms
  by (cases "writeResult inp")
     (auto simp: scanIteration_def Let_def split: if_splits sum.splits bool.splits)

lemma scanIteration_store:
  assumes "scanIteration loc st inp = Inr (st1, out)"
  shows "store st1 = (case out of Recorded r \<Rightarrow> writeAtEnd (store st) r | _ \<Rightarrow> store st)"
  using assms
  by (auto simp: scanIteration_def Let_def split: if_splits sum.splits bool.splits)

lemma list_ex_recentDuplicate:
  "list_ex (recentDuplicate tha b) records
   \<longleftrightarrow> (\<exists>r\<in>set records. \<exists>ts rest t. r = ts # b # rest \<and> parseTimestamp ts = Some t \<and> tha < t)"
  by (simp add: list_ex_iff recentDuplicate_iff)

lemma sprintf_d_one: "sprintf_d (wrap64 1) = ''1''"
  by (simp add: wrap64_def sprintf_d_def digitsOf.simps digitChar_def digitRow_def)

section \<open>The claims about export mode\<close>

text \<open>
  C1, at the input where the code leaves what the claim says. The store holds records
  stamped 2024-10-24T00:00:00, 2024-10-26T23:59:58 and 2024-10-26T23:59:59, all in
  UTC, the location of the process. The export from 2024-10-24 to 2024-10-26 writes two
  records: the one stamped exactly 23:59:59 on the end day is left out, because the
  upper bound is the end day's 23:59:59 and the comparison with it is strict.
\<close>

theorem export_leaves_out_last_second:
  "runExportMode utc True octoberDir ''2024-10-24'' ''2024-10-26'' =
     Inr (Exported 2 ''export_2024-10-24_to_2024-10-26_2_records.csv'',
          octoberDir(''export_2024-10-24_to_2024-10-26_2_records.csv'' \<mapsto>
            RegularFile [Fields [''2024-10-24T00:00:00+00:00'', ''1001'', ''1''],
                         Fields [''2024-10-26T23:59:58+00:00'', ''1002'', ''1'']]))"
proof -
  have e: "(if ''2024-10-26'' = [] then Some 1729728000000000000
            else parseDateInLocation utc ''2024-10-26'') = Some 1729900800000000000"
    using parse_2024_10_26 by simp
  have f: "[[''2024-10-24T00:00:00+00:00'', ''1001'', ''1''],
            [''2024-10-26T23:59:58+00:00'', ''1002'', ''1'']]
           = filter (recordMatches 1729728000000000000 (endOfDay 1729900800000000000))
               [[''2024-10-24T00:00:00+00:00'', ''1001'', ''1''],
                [''2024-10-26T23:59:58+00:00'', ''1002'', ''1''],
                [''2024-10-26T23:59:59+00:00'', ''1003'', ''2'']]"
    by code_simp
  have n: "''export_2024-10-24_to_2024-10-26_2_records.csv''
           = exportFileName ''2024-10-24'' ''2024-10-26''
               (length [[''2024-10-24T00:00:00+00:00'', ''1001'', ''1''],
                        [''2024-10-26T23:59:58+00:00'', ''1002'', ''1'']])"
    by code_simp
  have d: "octoberDir ''export_2024-10-24_to_2024-10-26_2_records.csv'' \<noteq> Some Directory"
    by (simp add: octoberDir_def exportStoreName_def)
  have "runExportModeOn exportStoreName utc True octoberDir ''2024-10-24'' ''2024-10-26'' =
          Inr (Exported (length [[''2024-10-24T00:00:00+00:00'', ''1001'', ''1''],
                                 [''2024-10-26T23:59:58+00:00'', ''1002'', ''1'']])
                 ''export_2024-10-24_to_2024-10-26_2_records.csv'',
               octoberDir(''export_2024-10-24_to_2024-10-26_2_records.csv'' \<mapsto>
                 RegularFile (map Fields [[''2024-10-24T00:00:00+00:00'', ''1001'', ''1''],
                                          [''2024-10-26T23:59:58+00:00'', ''1002'', ''1'']])))"
    by (rule runExportModeOn_exported[where fs = octoberDir and name = exportStoreName,
          OF octoberDir_store ReadAll_octoberStore parse_2024_10_24 e f _ n d]) simp
  then show ?thesis by (simp add: runExportMode_def)
qed

text \<open>
  C8: when the store is read, the dates are parsed and no record matches the filter,
  \<open>runExportMode\<close> prints that no records were found and leaves the working
  directory as it was: no file is created. The store name is arbitrary, so this holds
  for both variants of the program.
\<close>

theorem export_no_match_creates_no_file:
  assumes "fs name = Some (RegularFile ls)" and "ReadAll ls = Some records"
    and "parseDateInLocation loc startDate = Some start"
    and "(if endDate = [] then Some start else parseDateInLocation loc endDate) = Some endMidnight"
    and "filter (recordMatches start (endOfDay endMidnight)) records = []"
  shows "runExportModeOn name loc writeOk fs startDate endDate = Inr (NoRecordsFound, fs)"
  using runExportModeOn_filtered[where fs = fs and name = name, OF assms(1-4)] assms(5) by simp

theorem export_no_match_creates_no_file_witness:
  "runExportMode utc True octoberDir ''2024-10-25'' [] = Inr (NoRecordsFound, octoberDir)"
proof -
  have e: "(if ([]::string) = [] then Some 1729814400000000000
            else parseDateInLocation utc []) = Some 1729814400000000000"
    by simp
  have f: "filter (recordMatches 1729814400000000000 (endOfDay 1729814400000000000))
             [[''2024-10-24T00:00:00+00:00'', ''1001'', ''1''],
              [''2024-10-26T23:59:58+00:00'', ''1002'', ''1''],
              [''2024-10-26T23:59:59+00:00'', ''1003'', ''2'']] = []"
    by code_simp
  show ?thesis
    unfolding runExportMode_def
    by (rule export_no_match_creates_no_file[where fs = octoberDir and name = exportStoreName,
          OF octoberDir_store ReadAll_octoberStore parse_2024_10_25 e f])
qed

text \<open>
  C9: when the store is read, the dates are parsed, at least one record matches, the
  output name is not taken by a directory and the write succeeds, the output file holds
  the matching records in store order (the store's records, filtered), and its name is
  \<open>export_<start>_<count>_records.csv\<close> without an end date and
  \<open>export_<start>_to_<end>_<count>_records.csv\<close> with one, \<open><count>\<close> being the number of
  matching records in decimal.
\<close>

theorem export_writes_matches_in_order:
  assumes "fs name = Some (RegularFile ls)" and "ReadAll ls = Some records"
    and "parseDateInLocation loc startDate = Some start"
    and "(if endDate = [] then Some start else parseDateInLocation loc endDate) = Some endMidnight"
    and "matching = filter (recordMatches start (endOfDay endMidnight)) records"
    and "matching \<noteq> []"
    and "filename = (if endDate = []
                     then ''export_'' @ startDate @ ''_'' @ sprintf_d (int (length matching))
                          @ ''_records.csv''
                     else ''export_'' @ startDate @ ''_to_'' @ endDate @ ''_''
                          @ sprintf_d (int (length matching)) @ ''_records.csv'')"
    and "fs filename \<noteq> Some Directory"
  shows "runExportModeOn name loc True fs startDate endDate =
           Inr (Exported (length matching) filename,
                fs(filename \<mapsto> RegularFile (map Fields matching)))"
proof -
  have n: "filename = exportFileName startDate endDate (length matching)"
    using assms(7) by (simp add: exportFileName_def)
  show ?thesis
    by (rule runExportModeOn_exported[where fs = fs and name = name,
          OF assms(1-6) n assms(8)])
qed

theorem export_writes_matches_in_order_witness:
  "runExportMode utc True octoberDir ''2024-10-26'' [] =
     Inr (Exported 1 ''export_2024-10-26_1_records.csv'',
          octoberDir(''export_2024-10-26_1_records.csv'' \<mapsto>
            RegularFile [Fields [''2024-10-26T23:59:58+00:00'', ''1002'', ''1'']]))"
proof -
  have e: "(if ([]::string) = [] then Some 1729900800000000000
            else parseDateInLocation utc []) = Some 1729900800000000000"
    by simp
  have f: "[[''2024-10-26T23:59:58+00:00'', ''1002'', ''1'']]
           = filter (recordMatches 1729900800000000000 (endOfDay 1729900800000000000))
               [[''2024-10-24T00:00:00+00:00'', ''1001'', ''1''],
                [''2024-10-26T23:59:58+00:00'', ''1002'', ''1''],
                [''2024-10-26T23:59:59+00:00'', ''1003'', ''2'']]"
    by code_simp
  have n: "''export_2024-10-26_1_records.csv''
           = (if ([]::string) = []
              then ''export_'' @ ''2024-10-26'' @ ''_''
                   @ sprintf_d (int (length [[''2024-10-26T23:59:58+00:00'', ''1002'', ''1'']]))
                   @ ''_records.csv''
              else ''export_'' @ ''2024-10-26'' @ ''_to_'' @ [] @ ''_''
                   @ sprintf_d (int (length [[''2024-10-26T23:59:58+00:00'', ''1002'', ''1'']]))
                   @ ''_records.csv'')"
    by code_simp
  have d: "octoberDir ''export_2024-10-26_1_records.csv'' \<noteq> Some Directory"
    by (simp add: octoberDir_def exportStoreName_def)
  have "runExportModeOn exportStoreName utc True octoberDir ''2024-10-26'' [] =
          Inr (Exported (length [[''2024-10-26T23:59:58+00:00'', ''1002'', ''1'']])
                 ''export_2024-10-26_1_records.csv'',
               octoberDir(''export_2024-10-26_1_records.csv'' \<mapsto>
                 RegularFile (map Fields [[''2024-10-26T23:59:58+00:00'', ''1002'', ''1'']])))"
    by (rule export_writes_matches_in_order[where fs = octoberDir and name = exportStoreName,
          OF octoberDir_store ReadAll_octoberStore parse_2024_10_26 e f _ n d]) simp
  then show ?thesis by (simp add: runExportMode_def)
qed

section \<open>The claim about the store file\<close>

text \<open>
  C2, at the input where the code leaves what the claim says. In an empty working
  directory, scan mode records the barcode 12345 at 2024-10-25T10:00:00Z: the record is
  appended to \<open>scans.csv\<close>, and \<open>scanned_barcodes.csv\<close> does not exist. Export mode
  for that day then fails to open its store. The export of the second variant, which
  reads \<open>scans.csv\<close>, exports the record.
\<close>

theorem export_reads_another_file_than_scan_writes:
  "(case runScanMode utc Map.empty morning True scanOnce of
      Inl p \<Rightarrow> None
    | Inr (outs, fs) \<Rightarrow>
        Some (outs, fs scanStoreName, fs exportStoreName,
              map_sum id fst (runExportMode utc True fs ''2024-10-25'' []),
              map_sum id fst (runExportMode2 utc True fs ''2024-10-25'' [])))
   = Some (Some [Recorded [''2024-10-25T10:00:00+00:00'', ''12345'', ''1'']],
           Some (RegularFile [Fields [''2024-10-25T10:00:00+00:00'', ''12345'', ''1'']]),
           None,
           Inr ErrorOpeningFile,
           Inr (Exported 1 ''export_2024-10-25_1_records.csv''))"
  by code_simp

section \<open>The claims about the duplicate check\<close>

text \<open>
  What an append does to a store whose last line has no newline. The store is the
  line \<open>2024-10-25T09:00:00+00:00,1,1\<close>; barcode 42 is scanned at 10:00 and at 10:01.
  The first record continues the last line, which then has five fields and the barcode
  42 in its fourth; the second scan finds no record with 42 in its second field and is
  recorded too.
\<close>

lemma append_after_unfinished_line:
  "map_sum id (\<lambda>(st, outs). (store st, outs)) (scanLoop utc unfinishedState scanAgain)
   = Inr ([Fields [''2024-10-25T09:00:00+00:00'', ''1'', ''12024-10-25T10:00:00+00:00'', ''42'', ''2''],
           Fields [''2024-10-25T10:01:00+00:00'', ''42'', ''3'']],
          [Recorded [''2024-10-25T10:00:00+00:00'', ''42'', ''2''],
           Recorded [''2024-10-25T10:01:00+00:00'', ''42'', ''3'']])"
  by code_simp

text \<open>
  C5, at the input where the code leaves what the claim says. In an empty working
  directory, barcode 12345 is scanned at 10:00:00.999999999 and again at 12:00:00.5,
  less than two hours later. The first record is stamped 10:00:00, which is not
  later than 10:00:00.5, two hours before the second scan: both scans are recorded.
\<close>

theorem rescan_within_two_hours_recorded_twice:
  "(case runScanMode utc Map.empty morning True scanTwice of
      Inl p \<Rightarrow> None
    | Inr (outs, fs) \<Rightarrow> Some (outs, fs scanStoreName))
   = Some (Some [Recorded [''2024-10-25T10:00:00+00:00'', ''12345'', ''1''],
                 Recorded [''2024-10-25T12:00:00+00:00'', ''12345'', ''2'']],
           Some (RegularFile [Fields [''2024-10-25T10:00:00+00:00'', ''12345'', ''1''],
                              Fields [''2024-10-25T12:00:00+00:00'', ''12345'', ''2'']]))
   \<and> nowCheck (scanTwice ! 1) - nowRecord (scanTwice ! 0) < twoHours"
  by code_simp

text \<open>
  C5, as the code has it: a scanned digit-only barcode, on a store the CSV reader
  accepts with at least two fields in every record, is rejected as a duplicate, the
  state and so the store unchanged, exactly when some stored record has that barcode as
  its second field and a timestamp strictly later than the time of the check minus two
  hours. Consequently, after an accepted scan at a time the layout represents, on a
  store of three-field records that ends with a newline: the record of that scan is
  appended as a line; the same barcode scanned again is rejected, leaving the one
  record, exactly when the stored timestamp of the first scan (its time, cut to the
  second) is strictly later than the time of the second check minus two hours, or an
  older record is. So it is rejected when the second check comes at most two hours less
  one second after the first scan; it is not rejected when the second check comes two
  hours or more after the first scan and no older record is in the window; and whenever
  it is not rejected and the write succeeds, the second scan appends a second record.
\<close>

theorem duplicate_iff_recent_record:
  assumes tok: "numRegex (barcodeID inp)" and sk: "seekOk inp"
    and rd: "ReadAll (store st) = Some records"
    and l2: "list_all (\<lambda>r. 2 \<le> length r) records"
  shows "((scanIteration loc st inp = Inr (st, DuplicateEntry))
          \<longleftrightarrow> (\<exists>r\<in>set records. \<exists>ts rest t.
                 r = ts # barcodeID inp # rest \<and> parseTimestamp ts = Some t
                 \<and> nowCheck inp - twoHours < t))
         \<and> (\<forall>st1 r1 inp2.
               scanIteration loc st inp = Inr (st1, Recorded r1)
               \<and> representable loc (nowRecord inp)
               \<and> list_all (\<lambda>r. length r = 3) records
               \<and> endsWithNewline (store st)
               \<and> barcodeID inp2 = barcodeID inp \<and> seekOk inp2
               \<longrightarrow> store st1 = store st @ [Fields r1]
                   \<and> ((scanIteration loc st1 inp2 = Inr (st1, DuplicateEntry))
                        \<longleftrightarrow> (nowCheck inp2 - twoHours < unixSec (nowRecord inp) * 1000000000
                             \<or> (\<exists>r\<in>set records. \<exists>ts rest t.
                                   r = ts # barcodeID inp # rest \<and> parseTimestamp ts = Some t
                                   \<and> nowCheck inp2 - twoHours < t)))
                   \<and> (nowCheck inp2 \<le> nowRecord inp + twoHours - 1000000000
                        \<longrightarrow> scanIteration loc st1 inp2 = Inr (st1, DuplicateEntry))
                   \<and> (nowRecord inp + twoHours \<le> nowCheck inp2
                        \<and> \<not> (\<exists>r\<in>set records. \<exists>ts rest t.
                                   r = ts # barcodeID inp # rest \<and> parseTimestamp ts = Some t
                                   \<and> nowCheck inp2 - twoHours < t)
                        \<longrightarrow> scanIteration loc st1 inp2 \<noteq> Inr (st1, DuplicateEntry))
                   \<and> (scanIteration loc st1 inp2 \<noteq> Inr (st1, DuplicateEntry)
                        \<and> writeResult inp2 = WriteOk
                        \<longrightarrow> (\<exists>st2 r2. scanIteration loc st1 inp2 = Inr (st2, Recorded r2)
                                  \<and> store st2 = store st @ [Fields r1, Fields r2])))"
proof (intro conjI allI impI)
  show "(scanIteration loc st inp = Inr (st, DuplicateEntry))
        \<longleftrightarrow> (\<exists>r\<in>set records. \<exists>ts rest t.
               r = ts # barcodeID inp # rest \<and> parseTimestamp ts = Some t
               \<and> nowCheck inp - twoHours < t)"
    using scanIteration_duplicate[OF tok, of loc st st] sk
      checkRecentDuplicate_list_ex[OF rd l2, of "nowCheck inp" "barcodeID inp"]
    by (simp add: list_ex_recentDuplicate)
next
  fix st1 r1 and inp2 :: scan_input
  assume h: "scanIteration loc st inp = Inr (st1, Recorded r1)
             \<and> representable loc (nowRecord inp)
             \<and> list_all (\<lambda>r. length r = 3) records
             \<and> endsWithNewline (store st)
             \<and> barcodeID inp2 = barcodeID inp \<and> seekOk inp2"
  from scanIteration_recorded[of loc st inp st1 r1] h
  obtain q where r1: "r1 = [formatTimestamp loc (nowRecord inp), barcodeID inp, q]"
    and s0: "store st1 = writeAtEnd (store st) r1" and w1: "\<not> writerFailed st1"
    by blast
  have s1: "store st1 = store st @ [Fields r1]"
    using s0 h by (simp add: writeAtEnd_newline)
  show "store st1 = store st @ [Fields r1]" by (rule s1)
  have e1: "endsWithNewline (store st1)" unfolding s1 by (rule endsWithNewline_append)
  have l3: "list_all (\<lambda>r. length r = length r1) records"
    using h r1 by (simp add: numeral_3_eq_3)
  have rd1: "ReadAll (store st1) = Some (records @ [r1])"
    unfolding s1 using ReadAll_append[OF rd _ l3] r1 by simp
  have l21: "list_all (\<lambda>r. 2 \<le> length r) (records @ [r1])" using l2 r1 by simp
  have tok2: "numRegex (barcodeID inp2)" using h tok by simp
  have pf: "parseTimestamp (formatTimestamp loc (nowRecord inp))
            = Some (unixSec (nowRecord inp) * 1000000000)"
    using parse_format h by blast
  have p1: "recentDuplicate tha (barcodeID inp) r1 \<longleftrightarrow> tha < unixSec (nowRecord inp) * 1000000000"
    for tha
    unfolding r1 by (simp add: recentDuplicate_def pf)
  have c2: "checkRecentDuplicate (seekOk inp2) (store st1) (nowCheck inp2) (barcodeID inp2)
            = Inr (nowCheck inp2 - twoHours < unixSec (nowRecord inp) * 1000000000
                   \<or> (\<exists>r\<in>set records. \<exists>ts rest t.
                         r = ts # barcodeID inp # rest \<and> parseTimestamp ts = Some t
                         \<and> nowCheck inp2 - twoHours < t))"
    using checkRecentDuplicate_list_ex[OF rd1 l21, of "nowCheck inp2" "barcodeID inp2"] h
    by (auto simp: p1 list_ex_recentDuplicate)
  show d2: "(scanIteration loc st1 inp2 = Inr (st1, DuplicateEntry))
        \<longleftrightarrow> (nowCheck inp2 - twoHours < unixSec (nowRecord inp) * 1000000000
             \<or> (\<exists>r\<in>set records. \<exists>ts rest t.
                   r = ts # barcodeID inp # rest \<and> parseTimestamp ts = Some t
                   \<and> nowCheck inp2 - twoHours < t))"
    unfolding scanIteration_duplicate[OF tok2] c2 by simp
  have cut: "nowRecord inp - 1000000000 < unixSec (nowRecord inp) * 1000000000"
    "unixSec (nowRecord inp) * 1000000000 \<le> nowRecord inp"
    using div_bounds[of 1000000000 "nowRecord inp"] unfolding unixSec_def by linarith+
  {
    assume "nowCheck inp2 \<le> nowRecord inp + twoHours - 1000000000"
    then have "nowCheck inp2 - twoHours < unixSec (nowRecord inp) * 1000000000"
      using cut(1) by linarith
    then show "scanIteration loc st1 inp2 = Inr (st1, DuplicateEntry)"
      using d2 by blast
  }
  {
    assume a: "nowRecord inp + twoHours \<le> nowCheck inp2
               \<and> \<not> (\<exists>r\<in>set records. \<exists>ts rest t.
                       r = ts # barcodeID inp # rest \<and> parseTimestamp ts = Some t
                       \<and> nowCheck inp2 - twoHours < t)"
    then have "\<not> nowCheck inp2 - twoHours < unixSec (nowRecord inp) * 1000000000"
      using cut(2) by linarith
    then show "scanIteration loc st1 inp2 \<noteq> Inr (st1, DuplicateEntry)"
      using d2 a by blast
  }
  assume n: "scanIteration loc st1 inp2 \<noteq> Inr (st1, DuplicateEntry) \<and> writeResult inp2 = WriteOk"
  then have "checkRecentDuplicate (seekOk inp2) (store st1) (nowCheck inp2) (barcodeID inp2)
             = Inr False"
    using d2 c2 by simp
  from scanIteration_accepted[OF tok2 this w1, of loc] n
  obtain st2 r2 where a: "scanIteration loc st1 inp2 = Inr (st2, Recorded r2)"
    and s2: "store st2 = writeAtEnd (store st1) r2"
    by (auto simp: Let_def)
  show "\<exists>st2 r2. scanIteration loc st1 inp2 = Inr (st2, Recorded r2)
                 \<and> store st2 = store st @ [Fields r1, Fields r2]"
    using a s2 s1 writeAtEnd_newline[OF e1] by auto
qed

theorem duplicate_iff_recent_record_witness:
  "scanIteration utc morningState (scanAt ''12345'' morning)
     = Inr (afterFirst, Recorded [''2024-10-25T10:00:00+00:00'', ''12345'', ''1''])
   \<and> scanIteration utc afterFirst (scanAt ''12345'' (morning + 3600000000000))
     = Inr (afterFirst, DuplicateEntry)
   \<and> (\<exists>st2 r2. scanIteration utc afterFirst (scanAt ''12345'' (morning + 7200000000000))
                   = Inr (st2, Recorded r2)
                 \<and> store st2 = [Fields [''2024-10-25T10:00:00+00:00'', ''12345'', ''1''],
                                 Fields r2])"
proof -
  have h1: "numRegex (barcodeID (scanAt ''12345'' morning))" by code_simp
  have h2: "seekOk (scanAt ''12345'' morning)" by (simp add: scanAt_def)
  have h3: "ReadAll (store morningState) = Some []" by (simp add: morningState_def ReadAll_def)
  have h4: "list_all (\<lambda>r. 2 \<le> length r) ([]::string list list)" by simp
  note t = duplicate_iff_recent_record[OF h1 h2 h3 h4, of utc, THEN conjunct2, rule_format]
  have e1: "scanIteration utc morningState (scanAt ''12345'' morning)
            = Inr (afterFirst, Recorded [''2024-10-25T10:00:00+00:00'', ''12345'', ''1''])"
    by code_simp
  have rp: "representable utc (nowRecord (scanAt ''12345'' morning))" by code_simp
  have l3: "list_all (\<lambda>r. length r = 3) ([]::string list list)" by simp
  have nl: "endsWithNewline (store morningState)"
    by (simp add: morningState_def endsWithNewline_def)
  have u: "unixSec (nowRecord (scanAt ''12345'' morning)) * 1000000000 = morning"
    by (simp add: scanAt_def morning_def unixSec_def)
  have b: "barcodeID (scanAt ''12345'' t) = barcodeID (scanAt ''12345'' morning)"
    "seekOk (scanAt ''12345'' t)" "writeResult (scanAt ''12345'' t) = WriteOk"
    "nowCheck (scanAt ''12345'' t) = t" for t
    by (simp_all add: scanAt_def)
  note t1 = t[of afterFirst _ "scanAt ''12345'' (morning + 3600000000000)",
      OF conjI[OF e1 conjI[OF rp conjI[OF l3 conjI[OF nl conjI[OF b(1) b(2)]]]]]]
  note t2 = t[of afterFirst _ "scanAt ''12345'' (morning + 7200000000000)",
      OF conjI[OF e1 conjI[OF rp conjI[OF l3 conjI[OF nl conjI[OF b(1) b(2)]]]]]]
  have d1: "scanIteration utc afterFirst (scanAt ''12345'' (morning + 3600000000000))
            = Inr (afterFirst, DuplicateEntry)"
    using t1 unfolding u b(4) by (simp add: twoHours_def)
  have d2: "scanIteration utc afterFirst (scanAt ''12345'' (morning + 7200000000000))
            \<noteq> Inr (afterFirst, DuplicateEntry)"
    using t2 unfolding u b(4) by (simp add: twoHours_def)
  have "\<exists>st2 r2. scanIteration utc afterFirst (scanAt ''12345'' (morning + 7200000000000))
                   = Inr (st2, Recorded r2)
                 \<and> store st2 = store morningState
                                @ [Fields [''2024-10-25T10:00:00+00:00'', ''12345'', ''1''], Fields r2]"
    using t2 d2 b(3) by blast
  then show ?thesis using e1 d1 by (simp add: morningState_def)
qed

text \<open>
  C10: the duplicate check looks at no date. On a store the CSV reader accepts with at
  least two fields in every record, \<open>checkRecentDuplicate\<close> answers true exactly when
  some stored record has the scanned barcode as its second field and a timestamp
  strictly later than the time of the check minus two hours, and answers false
  otherwise; a scan is rejected exactly then (and when the seek succeeds), whatever the
  cached date and the cached daily count are. A scan that is not rejected, on a date
  other than the cached date, is recorded with sequence 1, and the cached date and count
  become that date and 1. The witness is a barcode recorded at 23:30: it is rejected at
  00:15 of the next day, where another barcode is recorded with sequence 1; and a barcode
  recorded at 00:05 is not rejected at 20:00 of the same day.
\<close>

theorem duplicate_check_ignores_calendar_day:
  assumes tok: "numRegex (barcodeID inp)"
    and rd: "ReadAll (store st) = Some records"
    and l2: "list_all (\<lambda>r. 2 \<le> length r) records"
  shows "checkRecentDuplicate True (store st) (nowCheck inp) (barcodeID inp)
           = Inr (\<exists>r\<in>set records. \<exists>ts rest t.
                    r = ts # barcodeID inp # rest \<and> parseTimestamp ts = Some t
                    \<and> nowCheck inp - twoHours < t)
         \<and> (\<forall>cd dc.
               (scanIteration loc (st\<lparr>currentDate := cd, dailyCount := dc\<rparr>) inp
                  = Inr (st\<lparr>currentDate := cd, dailyCount := dc\<rparr>, DuplicateEntry))
               \<longleftrightarrow> (seekOk inp
                    \<and> (\<exists>r\<in>set records. \<exists>ts rest t.
                          r = ts # barcodeID inp # rest \<and> parseTimestamp ts = Some t
                          \<and> nowCheck inp - twoHours < t)))
         \<and> (scanIteration loc st inp \<noteq> Inr (st, DuplicateEntry)
              \<and> formatDate loc (nowRecord inp) \<noteq> currentDate st
              \<and> \<not> writerFailed st \<and> writeResult inp = WriteOk
              \<longrightarrow> (\<exists>st2. scanIteration loc st inp
                            = Inr (st2, Recorded [formatTimestamp loc (nowRecord inp),
                                                  barcodeID inp, ''1''])
                          \<and> currentDate st2 = formatDate loc (nowRecord inp)
                          \<and> dailyCount st2 = 1))"
proof (intro conjI allI impI)
  show c: "checkRecentDuplicate True (store st) (nowCheck inp) (barcodeID inp)
           = Inr (\<exists>r\<in>set records. \<exists>ts rest t.
                    r = ts # barcodeID inp # rest \<and> parseTimestamp ts = Some t
                    \<and> nowCheck inp - twoHours < t)"
    using checkRecentDuplicate_list_ex[OF rd l2, of "nowCheck inp" "barcodeID inp"]
    by (simp add: list_ex_recentDuplicate)
  fix cd dc
  show "(scanIteration loc (st\<lparr>currentDate := cd, dailyCount := dc\<rparr>) inp
           = Inr (st\<lparr>currentDate := cd, dailyCount := dc\<rparr>, DuplicateEntry))
        \<longleftrightarrow> (seekOk inp
             \<and> (\<exists>r\<in>set records. \<exists>ts rest t.
                   r = ts # barcodeID inp # rest \<and> parseTimestamp ts = Some t
                   \<and> nowCheck inp - twoHours < t))"
  proof (cases "seekOk inp")
    case True
    then show ?thesis unfolding scanIteration_duplicate[OF tok] using c by simp
  next
    case False
    then show ?thesis unfolding scanIteration_duplicate[OF tok]
      by (simp add: checkRecentDuplicate_def)
  qed
next
  assume h: "scanIteration loc st inp \<noteq> Inr (st, DuplicateEntry)
             \<and> formatDate loc (nowRecord inp) \<noteq> currentDate st
             \<and> \<not> writerFailed st \<and> writeResult inp = WriteOk"
  have "checkRecentDuplicate (seekOk inp) (store st) (nowCheck inp) (barcodeID inp) \<noteq> Inr True"
    using h scanIteration_duplicate[OF tok, of loc st st] by simp
  moreover have "\<exists>b. checkRecentDuplicate (seekOk inp) (store st) (nowCheck inp) (barcodeID inp)
                      = Inr b"
    using checkRecentDuplicate_list_ex[OF rd l2, of "nowCheck inp" "barcodeID inp"]
    by (cases "seekOk inp") (auto simp: checkRecentDuplicate_def)
  ultimately have f: "checkRecentDuplicate (seekOk inp) (store st) (nowCheck inp) (barcodeID inp)
                      = Inr False"
    by auto
  have w: "\<not> writerFailed st" "writeResult inp = WriteOk"
    and nd: "formatDate loc (nowRecord inp) \<noteq> currentDate st"
    using h by simp_all
  show "\<exists>st2. scanIteration loc st inp
                 = Inr (st2, Recorded [formatTimestamp loc (nowRecord inp), barcodeID inp, ''1''])
               \<and> currentDate st2 = formatDate loc (nowRecord inp)
               \<and> dailyCount st2 = 1"
    unfolding scanIteration_accepted[OF tok f w] using nd sprintf_d_one
    by (simp add: Let_def wrap64_def)
qed

theorem duplicate_check_ignores_calendar_day_witness:
  "scanIteration utc eveningState (scanAt ''777'' afterMidnight) = Inr (eveningState, DuplicateEntry)
   \<and> (\<exists>st2. scanIteration utc eveningState (scanAt ''888'' afterMidnight)
              = Inr (st2, Recorded [''2024-10-26T00:15:00+00:00'', ''888'', ''1''])
            \<and> currentDate st2 = ''2024-10-26'' \<and> dailyCount st2 = 1)
   \<and> checkRecentDuplicate True (store earlyState) evening ''777'' = Inr False
   \<and> scanIteration utc earlyState (scanAt ''777'' evening) \<noteq> Inr (earlyState, DuplicateEntry)"
proof -
  have n: "numRegex (barcodeID (scanAt b t))" if "numRegex b" for b t
    using that by (simp add: scanAt_def)
  have n7: "numRegex ''777''" and n8: "numRegex ''888''" by code_simp+
  have f: "barcodeID (scanAt b t) = b" "nowCheck (scanAt b t) = t" "nowRecord (scanAt b t) = t"
    "seekOk (scanAt b t)" "writeResult (scanAt b t) = WriteOk" for b t
    by (simp_all add: scanAt_def)
  have r1: "ReadAll (store eveningState) = Some [[''2024-10-25T23:30:00+00:00'', ''777'', ''4'']]"
    by (simp add: eveningState_def ReadAll_def)
  have r2: "ReadAll (store earlyState) = Some [[''2024-10-25T00:05:00+00:00'', ''777'', ''1'']]"
    by (simp add: earlyState_def ReadAll_def)
  have l: "list_all (\<lambda>r. 2 \<le> length r) [[a, b, c]]" for a b c :: string
    by simp
  have p1: "parseTimestamp ''2024-10-25T23:30:00+00:00'' = Some 1729899000000000000"
    by code_simp
  have p2: "parseTimestamp ''2024-10-25T00:05:00+00:00'' = Some 1729814700000000000"
    by code_simp
  have s: "eveningState\<lparr>currentDate := currentDate eveningState,
                          dailyCount := dailyCount eveningState\<rparr> = eveningState"
    "earlyState\<lparr>currentDate := currentDate earlyState,
                  dailyCount := dailyCount earlyState\<rparr> = earlyState"
    by simp_all
  note t7 = duplicate_check_ignores_calendar_day[OF n[OF n7] r1 l, of afterMidnight utc]
  note t8 = duplicate_check_ignores_calendar_day[OF n[OF n8] r1 l, of afterMidnight utc]
  note t9 = duplicate_check_ignores_calendar_day[OF n[OF n7] r2 l, of evening utc]
  have a: "scanIteration utc eveningState (scanAt ''777'' afterMidnight)
           = Inr (eveningState, DuplicateEntry)"
    using t7[THEN conjunct2, THEN conjunct1, rule_format,
        where cd = "currentDate eveningState" and dc = "dailyCount eveningState"]
    unfolding s by (simp add: f p1 afterMidnight_def twoHours_def)
  have b0: "scanIteration utc eveningState (scanAt ''888'' afterMidnight)
            \<noteq> Inr (eveningState, DuplicateEntry)"
    using t8[THEN conjunct2, THEN conjunct1, rule_format,
        where cd = "currentDate eveningState" and dc = "dailyCount eveningState"]
    unfolding s by (simp add: f)
  have g3: "formatDate utc (nowRecord (scanAt ''888'' afterMidnight)) \<noteq> currentDate eveningState"
    by code_simp
  have g4: "\<not> writerFailed eveningState" by (simp add: eveningState_def)
  have "\<exists>st2. scanIteration utc eveningState (scanAt ''888'' afterMidnight)
              = Inr (st2, Recorded [formatTimestamp utc (nowRecord (scanAt ''888'' afterMidnight)),
                                    barcodeID (scanAt ''888'' afterMidnight), ''1''])
            \<and> currentDate st2 = formatDate utc (nowRecord (scanAt ''888'' afterMidnight))
            \<and> dailyCount st2 = 1"
    using t8[THEN conjunct2, THEN conjunct2] b0 g3 g4 f(5)[of "''888''" afterMidnight] by blast
  moreover have "formatTimestamp utc (nowRecord (scanAt ''888'' afterMidnight))
                 = ''2024-10-26T00:15:00+00:00''"
    by code_simp
  moreover have "formatDate utc (nowRecord (scanAt ''888'' afterMidnight)) = ''2024-10-26''"
    by code_simp
  ultimately have b: "\<exists>st2. scanIteration utc eveningState (scanAt ''888'' afterMidnight)
              = Inr (st2, Recorded [''2024-10-26T00:15:00+00:00'', ''888'', ''1''])
            \<and> currentDate st2 = ''2024-10-26'' \<and> dailyCount st2 = 1"
    by (simp add: f)
  have c: "checkRecentDuplicate True (store earlyState) evening ''777'' = Inr False"
    using t9[THEN conjunct1] by (simp add: f p2 evening_def twoHours_def)
  have d: "scanIteration utc earlyState (scanAt ''777'' evening) \<noteq> Inr (earlyState, DuplicateEntry)"
    using t9[THEN conjunct2, THEN conjunct1, rule_format,
        where cd = "currentDate earlyState" and dc = "dailyCount earlyState"]
    unfolding s by (simp add: f p2 evening_def twoHours_def)
  show ?thesis using a b c d by blast
qed

section \<open>Runs of the scan loop\<close>

lemma wrap64_id: "- (2 ^ 63) \<le> x \<Longrightarrow> x < 2 ^ 63 \<Longrightarrow> wrap64 x = x"
  by (simp add: wrap64_def)

lemma scanIteration_count:
  assumes "scanIteration loc st inp = Inr (st1, out)"
  shows "dailyCount st1 = dailyCount st
         \<or> dailyCount st1 = wrap64 ((if formatDate loc (nowRecord inp) \<noteq> currentDate st then 0
                                        else dailyCount st) + 1)"
  using assms
  by (auto simp: scanIteration_def Let_def split: if_splits sum.splits bool.splits)

lemma scanIteration_count_bounds:
  assumes "scanIteration loc st inp = Inr (st1, out)"
    and "0 \<le> dailyCount st" and "dailyCount st < 2 ^ 63 - 1"
  shows "0 \<le> dailyCount st1 \<and> dailyCount st1 \<le> dailyCount st + 1"
proof -
  define c where "c = (if formatDate loc (nowRecord inp) \<noteq> currentDate st then 0
                       else dailyCount st) + 1"
  have b: "0 < c" "c \<le> dailyCount st + 1" "c < 2 ^ 63"
    using assms(2,3) by (auto simp: c_def)
  then have "wrap64 c = c" by (intro wrap64_id) auto
  then show ?thesis
    using scanIteration_count[OF assms(1)] b assms(2) unfolding c_def[symmetric] by auto
qed

lemma scanIteration_scanRecord_count:
  assumes acc: "scanIteration loc st inp = Inr (st1, Recorded r)"
    and rp: "representable loc (nowRecord inp)"
    and c: "c = (if formatDate loc (nowRecord inp) \<noteq> currentDate st then 0 else dailyCount st)"
    and c0: "0 \<le> c" and c1: "c < 2 ^ 63 - 1"
  shows "scanRecord r" and "r = [formatTimestamp loc (nowRecord inp), barcodeID inp, sprintf_d (c + 1)]"
proof -
  have b: "0 < c + 1" "c + 1 < 2 ^ 63"
    using c0 c1 by auto
  then have w: "wrap64 (c + 1) = c + 1" by (intro wrap64_id) auto
  show r: "r = [formatTimestamp loc (nowRecord inp), barcodeID inp, sprintf_d (c + 1)]"
    using scanIteration_recorded[OF acc] w unfolding c by simp
  have tok: "numRegex (barcodeID inp)"
    using scanIteration_recorded[OF acc] by simp
  have "strconv_Atoi (sprintf_d (c + 1)) = Some (c + 1)"
    using Atoi_sprintf[of "c + 1"] b by simp
  then show "scanRecord r"
    using r tok timestampShaped_format[OF rp] b by (simp add: scanRecord_def)
qed

lemma scanIteration_scanRecord:
  assumes acc: "scanIteration loc st inp = Inr (st1, Recorded r)"
    and rp: "representable loc (nowRecord inp)"
    and c0: "0 \<le> dailyCount st" and c1: "dailyCount st < 2 ^ 63 - 1"
  shows "scanRecord r"
  using scanIteration_scanRecord_count(1)[OF acc rp refl] c0 c1 by simp

lemma recordsOf_Cons:
  "recordsOf (out # outs) = (case out of Recorded r \<Rightarrow> r # recordsOf outs | _ \<Rightarrow> recordsOf outs)"
  by (cases out) simp_all

lemma scanLoop_records:
  assumes "scanLoop loc st inps = Inr (st', outs)"
    and "0 \<le> dailyCount st" and "dailyCount st + int (length inps) < 2 ^ 63"
    and "\<forall>inp\<in>set inps. representable loc (nowRecord inp)"
  shows "list_all scanRecord (recordsOf outs)
         \<and> store st' = foldl writeAtEnd (store st) (recordsOf outs)"
  using assms
proof (induction inps arbitrary: st st' outs)
  case Nil
  then show ?case by simp
next
  case (Cons inp inps)
  from Cons.prems(1) obtain st1 out where it: "scanIteration loc st inp = Inr (st1, out)"
    by (cases "scanIteration loc st inp") (auto split: prod.splits)
  have c1: "dailyCount st < 2 ^ 63 - 1" using Cons.prems(3) by simp
  note cb = scanIteration_count_bounds[OF it Cons.prems(2) c1]
  note ss = scanIteration_store[OF it]
  have rec: "scanRecord r" if "out = Recorded r" for r
    using scanIteration_scanRecord[OF it[unfolded that] _ Cons.prems(2) c1] Cons.prems(4) by simp
  show ?case
  proof (cases "out = Exiting")
    case True
    then show ?thesis using Cons.prems(1) it ss by auto
  next
    case False
    then obtain st2 outs' where lp: "scanLoop loc st1 inps = Inr (st2, outs')"
      and e: "st' = st2" "outs = out # outs'"
      using Cons.prems(1) it by (auto split: sum.splits prod.splits)
    have ih: "list_all scanRecord (recordsOf outs')
              \<and> store st2 = foldl writeAtEnd (store st1) (recordsOf outs')"
      using Cons.IH[OF lp] cb Cons.prems(3,4) by simp
    show ?thesis
      using ih e ss rec by (cases out) (simp_all add: recordsOf_Cons)
  qed
qed

lemma foldl_writeAtEnd_newline:
  "endsWithNewline ls \<Longrightarrow> foldl writeAtEnd ls rs = ls @ map Fields rs"
proof (induction rs arbitrary: ls)
  case Nil
  then show ?case by simp
next
  case (Cons r rs)
  show ?case
    using Cons.IH[OF endsWithNewline_append[of ls r]] writeAtEnd_newline[OF Cons.prems, of r]
    by simp
qed

lemma scanIteration2_cases:
  assumes "scanIteration2 loc st inp = (st1, out)"
  shows "(case out of
            Recorded r \<Rightarrow> r = [formatTimestamp loc (nowRecord inp), barcodeID inp]
                          \<and> store2 st1 = writeAtEnd (store2 st) r
          | _ \<Rightarrow> store2 st1 = store2 st)"
  using assms
  by (auto simp: scanIteration2_def Let_def split: if_splits)

lemma scanLoop2_records:
  assumes "scanLoop2 loc st inps = (st', outs)"
  shows "list_all (\<lambda>r. length r = 2) (recordsOf outs)
         \<and> store2 st' = foldl writeAtEnd (store2 st) (recordsOf outs)"
  using assms
proof (induction inps arbitrary: st st' outs)
  case Nil
  then show ?case by simp
next
  case (Cons inp inps)
  obtain st1 out where it: "scanIteration2 loc st inp = (st1, out)"
    by (cases "scanIteration2 loc st inp") auto
  note cs = scanIteration2_cases[OF it]
  show ?case
  proof (cases "out = Exiting")
    case True
    then show ?thesis using Cons.prems it cs by auto
  next
    case False
    obtain st2 outs' where lp: "scanLoop2 loc st1 inps = (st2, outs')"
      by (cases "scanLoop2 loc st1 inps") auto
    have e: "st' = st2" "outs = out # outs'"
      using Cons.prems it lp False by simp_all
    show ?thesis
      using Cons.IH[OF lp] e cs by (cases out) (simp_all add: recordsOf_Cons)
  qed
qed

lemma maxCountLoop_ge: "maxCountLoop today acc records = Inr m \<Longrightarrow> acc \<le> m"
proof (induction records arbitrary: acc)
  case Nil
  then show ?case by simp
next
  case (Cons r records)
  then show ?case
    by (cases r) (fastforce split: if_splits option.splits)+
qed

lemma getDailyCount_nonneg: "getDailyCount sk ls d = Inr c \<Longrightarrow> 0 \<le> c"
  using maxCountLoop_ge[of d 0 _ c]
  by (auto simp: getDailyCount_def split: if_splits option.splits)

section \<open>The claim about the fields of a record\<close>

text \<open>
  C7, at the input where the code leaves what the claim says. In an empty working
  directory, scan mode of the second variant records the barcode 12345 at
  2024-10-25T10:00:00Z: the record appended to \<open>scans.csv\<close> has two fields, the
  timestamp and the barcode.
\<close>

theorem second_variant_appends_two_fields:
  "(case runScanMode2 utc Map.empty scanOnce of (outs, fs) \<Rightarrow> (outs, fs ''scans.csv''))
   = (Some [Recorded [''2024-10-25T10:00:00+00:00'', ''12345'']],
      Some (RegularFile [Fields [''2024-10-25T10:00:00+00:00'', ''12345'']]))"
  by code_simp

text \<open>
  C7, as the code has it. The daily count that \<open>getDailyCount\<close> reads at start-up is
  not negative. In a run of the scan loop of \<open>checkin.go\<close> that starts from a count
  that is not negative, leaves the count room below \<open>2 ^ 63\<close>, and reads clocks that
  the layout represents, every record printed as recorded has three fields, a timestamp
  of the shape of the layout, a barcode of digits and a positive integer sequence; these
  records are what the run appends to the store, and on a store that ends with a newline
  each of them is a line of the store. In a run of the scan loop of the second variant
  every record has two fields.
\<close>

theorem scan_records_have_three_fields:
  assumes run: "scanLoop loc st inps = Inr (st', outs)"
    and c0: "0 \<le> dailyCount st" and cn: "dailyCount st + int (length inps) < 2 ^ 63"
    and rp: "\<forall>inp\<in>set inps. representable loc (nowRecord inp)"
  shows "list_all scanRecord (recordsOf outs)
         \<and> store st' = foldl writeAtEnd (store st) (recordsOf outs)
         \<and> (endsWithNewline (store st) \<longrightarrow> store st' = store st @ map Fields (recordsOf outs))
         \<and> (\<forall>sk ls d c. getDailyCount sk ls d = Inr c \<longrightarrow> 0 \<le> c)
         \<and> (\<forall>s s' outs2. scanLoop2 loc s inps = (s', outs2)
               \<longrightarrow> list_all (\<lambda>r. length r = 2) (recordsOf outs2)
                   \<and> store2 s' = foldl writeAtEnd (store2 s) (recordsOf outs2))"
proof (intro conjI allI impI)
  note l = scanLoop_records[OF run c0 cn rp]
  show "list_all scanRecord (recordsOf outs)" using l by simp
  show s: "store st' = foldl writeAtEnd (store st) (recordsOf outs)" using l by simp
  show "store st' = store st @ map Fields (recordsOf outs)" if "endsWithNewline (store st)"
    unfolding s by (rule foldl_writeAtEnd_newline[OF that])
next
  fix sk ls d c
  assume "getDailyCount sk ls d = Inr c"
  then show "0 \<le> c" by (rule getDailyCount_nonneg)
next
  fix s s' outs2
  assume a: "scanLoop2 loc s inps = (s', outs2)"
  show "list_all (\<lambda>r. length r = 2) (recordsOf outs2)"
    and "store2 s' = foldl writeAtEnd (store2 s) (recordsOf outs2)"
    using scanLoop2_records[OF a] by simp_all
qed

theorem scan_records_have_three_fields_witness:
  "list_all scanRecord [[''2024-10-25T10:00:00+00:00'', ''222'', ''1''],
                        [''2024-10-25T10:01:00+00:00'', ''333'', ''2'']]
   \<and> (\<exists>st'. scanLoop utc morningState scanTwoBarcodes
                = Inr (st', [Recorded [''2024-10-25T10:00:00+00:00'', ''222'', ''1''],
                             Recorded [''2024-10-25T10:01:00+00:00'', ''333'', ''2'']])
              \<and> store st' = [Fields [''2024-10-25T10:00:00+00:00'', ''222'', ''1''],
                              Fields [''2024-10-25T10:01:00+00:00'', ''333'', ''2'']])
   \<and> (\<exists>s'. scanLoop2 utc \<lparr>store2 = [], writerFailed2 = False\<rparr> scanTwoBarcodes
               = (s', [Recorded [''2024-10-25T10:00:00+00:00'', ''222''],
                       Recorded [''2024-10-25T10:01:00+00:00'', ''333'']])
             \<and> store2 s' = [Fields [''2024-10-25T10:00:00+00:00'', ''222''],
                             Fields [''2024-10-25T10:01:00+00:00'', ''333'']])
   \<and> list_all (\<lambda>r. length r = 2) [[''2024-10-25T10:00:00+00:00'', ''222''],
                                      [''2024-10-25T10:01:00+00:00'', ''333'']]"
proof -
  have e: "scanLoop utc morningState scanTwoBarcodes
           = Inr (\<lparr>store = [Fields [''2024-10-25T10:00:00+00:00'', ''222'', ''1''],
                            Fields [''2024-10-25T10:01:00+00:00'', ''333'', ''2'']],
                   currentDate = ''2024-10-25'', dailyCount = 2, writerFailed = False\<rparr>,
                  [Recorded [''2024-10-25T10:00:00+00:00'', ''222'', ''1''],
                   Recorded [''2024-10-25T10:01:00+00:00'', ''333'', ''2'']])"
    by code_simp
  have e2: "scanLoop2 utc \<lparr>store2 = [], writerFailed2 = False\<rparr> scanTwoBarcodes
            = (\<lparr>store2 = [Fields [''2024-10-25T10:00:00+00:00'', ''222''],
                            Fields [''2024-10-25T10:01:00+00:00'', ''333'']],
                 writerFailed2 = False\<rparr>,
               [Recorded [''2024-10-25T10:00:00+00:00'', ''222''],
                Recorded [''2024-10-25T10:01:00+00:00'', ''333'']])"
    by code_simp
  have c0: "0 \<le> dailyCount morningState" by (simp add: morningState_def)
  have cn: "dailyCount morningState + int (length scanTwoBarcodes) < 2 ^ 63"
    by (simp add: morningState_def scanTwoBarcodes_def)
  have r1: "representable utc (nowRecord (scanAt ''222'' morning))" by code_simp
  have r2: "representable utc (nowRecord (scanAt ''333'' (morning + 60000000000)))" by code_simp
  have rp: "\<forall>inp\<in>set scanTwoBarcodes. representable utc (nowRecord inp)"
    using r1 r2 by (simp add: scanTwoBarcodes_def)
  have nl: "endsWithNewline (store morningState)"
    by (simp add: morningState_def endsWithNewline_def)
  note t = scan_records_have_three_fields[OF e c0 cn rp]
  have a: "list_all scanRecord [[''2024-10-25T10:00:00+00:00'', ''222'', ''1''],
                                [''2024-10-25T10:01:00+00:00'', ''333'', ''2'']]"
    using t[THEN conjunct1] by simp
  have b: "list_all (\<lambda>r. length r = 2) [[''2024-10-25T10:00:00+00:00'', ''222''],
                                          [''2024-10-25T10:01:00+00:00'', ''333'']]"
    using t[THEN conjunct2, THEN conjunct2, THEN conjunct2, THEN conjunct2, rule_format, OF e2]
    by simp
  show ?thesis using a b e e2 by simp
qed

section \<open>The claim about the sequence\<close>

lemma todaysSequences_append:
  "todaysSequences d (xs @ ys) = todaysSequences d xs @ todaysSequences d ys"
  by (simp add: todaysSequences_def map_filter_def)

lemma todaysSequences_pos:
  "list_all scanRecord records \<Longrightarrow> n \<in> set (todaysSequences d records) \<Longrightarrow> 0 < n"
  by (auto simp: todaysSequences_def map_filter_def list_all_iff scanRecord_def
      split: if_splits option.splits)

lemma specSequence_Max:
  assumes "list_all scanRecord records"
  shows "specSequence d records = 1 + Max (insert 0 (set (todaysSequences d records)))"
proof (cases "todaysSequences d records = []")
  case True
  then show ?thesis by (simp add: specSequence_def)
next
  case False
  then have ne: "set (todaysSequences d records) \<noteq> {}" by simp
  have "0 < Max (set (todaysSequences d records))"
    using todaysSequences_pos[OF assms Max_in[OF _ ne]] by simp
  then have "Max (insert 0 (set (todaysSequences d records))) = Max (set (todaysSequences d records))"
    using ne by (simp add: max_def)
  then show ?thesis using False by (simp add: specSequence_def)
qed

lemma scanRecord_first_field: "scanRecord r \<Longrightarrow> r \<noteq> [] \<and> 10 \<le> length (r ! 0)"
  by (auto simp: scanRecord_def timestampShaped_def)

lemma getDailyCount_Max:
  assumes "ReadAll ls = Some records" and "list_all scanRecord records"
  shows "getDailyCount True ls d = Inr (Max (insert 0 (set (todaysSequences d records))))"
proof -
  have "list_all (\<lambda>r. r \<noteq> [] \<and> 10 \<le> length (r ! 0)) records"
    using assms(2) scanRecord_first_field by (auto simp: list_all_iff)
  from maxCountLoop_Max[OF this, of d 0] show ?thesis
    using assms(1) by (simp add: getDailyCount_def)
qed

text \<open>
  C3, at the input where the code leaves what the claim says. The store holds one
  record, written at the offset +02:00 with the date prefix 2024-10-26 and the sequence
  5. A process in UTC is started at 23:00 of 2024-10-25, so that its cached date is
  2024-10-25 and its cached count 0, and records barcode 222 at 00:10 of 2024-10-26:
  the date has changed, the count is reset, and the sequence written is 1, while one
  more than the maximum sequence of the stored records of 2024-10-26 is 6.
\<close>

theorem new_date_sequence_ignores_the_store:
  "(case runScanMode utc otherZoneDir lateEvening True [scanAt ''222'' tenPastMidnight] of
      Inl p \<Rightarrow> None
    | Inr (outs, fs) \<Rightarrow> Some (outs, fs scanStoreName))
   = Some (Some [Recorded [''2024-10-26T00:10:00+00:00'', ''222'', ''1'']],
           Some (RegularFile [Fields [''2024-10-26T00:30:00+02:00'', ''111'', ''5''],
                              Fields [''2024-10-26T00:10:00+00:00'', ''222'', ''1'']]))
   \<and> formatDate utc tenPastMidnight = ''2024-10-26''
   \<and> specSequence ''2024-10-26'' [[''2024-10-26T00:30:00+02:00'', ''111'', ''5'']] = 6"
  by code_simp

text \<open>
  C3, as the code has it. The sequence of an accepted scan is the cached count plus one,
  where the count is first reset to 0 when today's date is not the cached date. On a
  store of scan records that ends with a newline, at a time the layout represents, this
  is one more than the maximum sequence among the stored records whose date prefix is
  today's date (1 when there is none) in two cases: today's date is the cached date, the
  cached count is what \<open>getDailyCount\<close> reads from the store for that date, as it is at
  start-up, and is below \<open>2 ^ 63 - 1\<close>; or today's date is not the cached date and
  no stored record with a sequence has today's date as prefix. After the scan the store
  is again a store of scan records that ends with a newline, the cached date is today's
  date and the cached count is what \<open>getDailyCount\<close> reads from the store.
\<close>

theorem sequence_is_cached_count_plus_one:
  assumes acc: "scanIteration loc st inp = Inr (st1, Recorded r)"
    and rd: "ReadAll (store st) = Some records"
    and wf: "list_all scanRecord records"
    and nl: "endsWithNewline (store st)"
    and rp: "representable loc (nowRecord inp)"
  shows "r ! 2 = sprintf_d (wrap64 ((if formatDate loc (nowRecord inp) = currentDate st
                                     then dailyCount st else 0) + 1))
         \<and> ((if formatDate loc (nowRecord inp) = currentDate st
              then getDailyCount True (store st) (currentDate st) = Inr (dailyCount st)
                   \<and> dailyCount st < 2 ^ 63 - 1
              else todaysSequences (formatDate loc (nowRecord inp)) records = [])
             \<longrightarrow> r ! 2 = sprintf_d (specSequence (formatDate loc (nowRecord inp)) records)
                 \<and> ReadAll (store st1) = Some (records @ [r])
                 \<and> list_all scanRecord (records @ [r])
                 \<and> endsWithNewline (store st1)
                 \<and> currentDate st1 = formatDate loc (nowRecord inp)
                 \<and> getDailyCount True (store st1) (currentDate st1) = Inr (dailyCount st1))"
proof (intro conjI impI)
  define today where "today = formatDate loc (nowRecord inp)"
  define c where "c = (if today \<noteq> currentDate st then 0 else dailyCount st)"
  note rec = scanIteration_recorded[OF acc]
  show "r ! 2 = sprintf_d (wrap64 ((if formatDate loc (nowRecord inp) = currentDate st
                                    then dailyCount st else 0) + 1))"
    using rec by auto
  assume h: "if formatDate loc (nowRecord inp) = currentDate st
             then getDailyCount True (store st) (currentDate st) = Inr (dailyCount st)
                  \<and> dailyCount st < 2 ^ 63 - 1
             else todaysSequences (formatDate loc (nowRecord inp)) records = []"
  define S where "S = set (todaysSequences today records)"
  have fin: "finite S" by (simp add: S_def)
  have cm: "c = Max (insert 0 S)"
  proof (cases "today = currentDate st")
    case True
    then show ?thesis
      using h getDailyCount_Max[OF rd wf, of today] by (simp add: c_def today_def S_def)
  next
    case False
    then show ?thesis using h by (simp add: c_def today_def S_def)
  qed
  have c0: "0 \<le> c" unfolding cm using fin by simp
  have c1: "c < 2 ^ 63 - 1"
    using h by (cases "today = currentDate st") (simp_all add: c_def today_def)
  note sr = scanIteration_scanRecord_count[OF acc rp c_def[unfolded today_def] c0 c1]
  have r: "r = [formatTimestamp loc (nowRecord inp), barcodeID inp, sprintf_d (c + 1)]"
    by (rule sr(2))
  show "r ! 2 = sprintf_d (specSequence (formatDate loc (nowRecord inp)) records)"
    using specSequence_Max[OF wf, of today] cm r by (simp add: today_def S_def add.commute)
  have s1: "store st1 = store st @ [Fields r]"
    using rec writeAtEnd_newline[OF nl] by simp
  have l3: "list_all (\<lambda>x. length x = length r) records"
    using wf r by (auto simp: list_all_iff scanRecord_def)
  show rd1: "ReadAll (store st1) = Some (records @ [r])"
    unfolding s1 using ReadAll_append[OF rd _ l3] r by simp
  show wf1: "list_all scanRecord (records @ [r])"
    using wf sr(1) by simp
  show "endsWithNewline (store st1)"
    unfolding s1 by (rule endsWithNewline_append)
  have w: "wrap64 (c + 1) = c + 1"
    using c0 c1 by (intro wrap64_id) auto
  have st1: "currentDate st1 = today" "dailyCount st1 = c + 1"
    using acc scanIteration_accepted[of inp st loc] rec w
    by (auto simp: Let_def c_def today_def)
  show "currentDate st1 = formatDate loc (nowRecord inp)"
    using st1 by (simp add: today_def)
  have at: "strconv_Atoi (sprintf_d (c + 1)) = Some (c + 1)"
    using Atoi_sprintf[of "c + 1"] c0 c1 by simp
  have "todaysSequences today [r] = [c + 1]"
    using r at formatDate_prefix(2)[OF rp]
    by (simp add: todaysSequences_def map_filter_def today_def)
  then have "set (todaysSequences today (records @ [r])) = insert (c + 1) S"
    by (simp add: todaysSequences_append S_def)
  moreover have "Max (insert 0 (insert (c + 1) S)) = c + 1"
  proof -
    have "Max (insert (c + 1) (insert 0 S)) = max (c + 1) (Max (insert 0 S))"
      using fin by (intro Max_insert) auto
    then show ?thesis unfolding cm[symmetric] by (simp add: insert_commute)
  qed
  ultimately show "getDailyCount True (store st1) (currentDate st1) = Inr (dailyCount st1)"
    using getDailyCount_Max[OF rd1 wf1, of today] st1 by simp
qed

theorem sequence_is_cached_count_plus_one_witness:
  "(\<exists>st1. scanIteration utc afterFirst (scanAt ''222'' (morning + 60000000000))
             = Inr (st1, Recorded [''2024-10-25T10:01:00+00:00'', ''222'', ''2''])
           \<and> ReadAll (store st1)
               = Some [[''2024-10-25T10:00:00+00:00'', ''12345'', ''1''],
                       [''2024-10-25T10:01:00+00:00'', ''222'', ''2'']]
           \<and> getDailyCount True (store st1) (currentDate st1) = Inr (dailyCount st1))
   \<and> ''2'' = sprintf_d (specSequence ''2024-10-25''
                           [[''2024-10-25T10:00:00+00:00'', ''12345'', ''1'']])"
proof -
  have acc: "scanIteration utc afterFirst (scanAt ''222'' (morning + 60000000000))
             = Inr (\<lparr>store = [Fields [''2024-10-25T10:00:00+00:00'', ''12345'', ''1''],
                              Fields [''2024-10-25T10:01:00+00:00'', ''222'', ''2'']],
                     currentDate = ''2024-10-25'', dailyCount = 2, writerFailed = False\<rparr>,
                    Recorded [''2024-10-25T10:01:00+00:00'', ''222'', ''2''])"
    by code_simp
  have rd: "ReadAll (store afterFirst) = Some [[''2024-10-25T10:00:00+00:00'', ''12345'', ''1'']]"
    by (simp add: afterFirst_def ReadAll_def)
  have wf: "list_all scanRecord [[''2024-10-25T10:00:00+00:00'', ''12345'', ''1'']]"
    by code_simp
  have nl: "endsWithNewline (store afterFirst)"
    by (simp add: afterFirst_def endsWithNewline_def)
  have rp: "representable utc (nowRecord (scanAt ''222'' (morning + 60000000000)))"
    by code_simp
  have d: "formatDate utc (nowRecord (scanAt ''222'' (morning + 60000000000)))
           = currentDate afterFirst"
    by code_simp
  have g: "getDailyCount True (store afterFirst) (currentDate afterFirst)
           = Inr (dailyCount afterFirst)"
    by code_simp
  have b: "dailyCount afterFirst < 2 ^ 63 - 1" by (simp add: afterFirst_def)
  have cd: "currentDate afterFirst = ''2024-10-25''" by (simp add: afterFirst_def)
  have p: "if formatDate utc (nowRecord (scanAt ''222'' (morning + 60000000000)))
              = currentDate afterFirst
           then getDailyCount True (store afterFirst) (currentDate afterFirst)
                  = Inr (dailyCount afterFirst)
                \<and> dailyCount afterFirst < 2 ^ 63 - 1
           else todaysSequences (formatDate utc (nowRecord (scanAt ''222'' (morning + 60000000000))))
                  [[''2024-10-25T10:00:00+00:00'', ''12345'', ''1'']] = []"
    using d g b by simp
  note t = sequence_is_cached_count_plus_one[OF acc rd wf nl rp, THEN conjunct2, rule_format, OF p]
  have k1: "sprintf_d (specSequence ''2024-10-25''
                         [[''2024-10-25T10:00:00+00:00'', ''12345'', ''1'']]) = ''2''"
    using t[THEN conjunct1] unfolding d cd by simp
  have k2: "ReadAll [Fields [''2024-10-25T10:00:00+00:00'', ''12345'', ''1''],
                     Fields [''2024-10-25T10:01:00+00:00'', ''222'', ''2'']]
            = Some [[''2024-10-25T10:00:00+00:00'', ''12345'', ''1''],
                    [''2024-10-25T10:01:00+00:00'', ''222'', ''2'']]"
    using t[THEN conjunct2, THEN conjunct1] by simp
  have k3: "getDailyCount True
              [Fields [''2024-10-25T10:00:00+00:00'', ''12345'', ''1''],
               Fields [''2024-10-25T10:01:00+00:00'', ''222'', ''2'']] ''2024-10-25'' = Inr 2"
    using t[THEN conjunct2, THEN conjunct2, THEN conjunct2, THEN conjunct2, THEN conjunct2]
    by simp
  show ?thesis unfolding acc k1 using k2 k3 by simp
qed

section \<open>The claim about re-reading the store\<close>

text \<open>
  C4, at the input where the code leaves what the claim says. The store holds one
  record of two fields. Scan mode is started at 10:00 of 2024-10-25 and records the
  barcodes 222 and 333. After the first of them the store holds a record of two fields
  and a record of three, which the CSV reader refuses, so that a daily count read from
  the store is 0; the second record is written with the sequence 2, from the count kept
  in memory.
\<close>

theorem second_sequence_comes_from_memory:
  "(case runScanMode utc twoColumnDir morning True scanTwoBarcodes of
      Inl p \<Rightarrow> None
    | Inr (outs, fs) \<Rightarrow> Some outs)
   = Some (Some [Recorded [''2024-10-25T10:00:00+00:00'', ''222'', ''1''],
                 Recorded [''2024-10-25T10:01:00+00:00'', ''333'', ''2'']])
   \<and> (case runScanMode utc twoColumnDir morning True [scanAt ''222'' morning] of
        Inl p \<Rightarrow> None
      | Inr (outs, fs) \<Rightarrow>
          (case fs scanStoreName of
             Some (RegularFile ls) \<Rightarrow> Some (ReadAll ls, getDailyCount True ls ''2024-10-25'')
           | _ \<Rightarrow> None))
     = Some (None, Inr 0)"
  by code_simp

text \<open>
  C4, as the code has it. At every iteration the duplicate check is computed from the
  store as it is then: a scanned digit-only barcode is rejected exactly when
  \<open>checkRecentDuplicate\<close> on the current store answers true. The daily count is not
  read again: the sequence of an accepted scan is the count kept in memory plus one,
  after the reset to 0 on a date other than the cached date, and that count and date are
  kept for the next iteration; with any other contents of the store on which the scan is
  no duplicate, the same record is written and the same count and date are kept.
\<close>

theorem duplicate_check_rereads_count_is_cached:
  assumes tok: "numRegex (barcodeID inp)"
  shows "((scanIteration loc st inp = Inr (st, DuplicateEntry))
          \<longleftrightarrow> checkRecentDuplicate (seekOk inp) (store st) (nowCheck inp) (barcodeID inp)
                = Inr True)
         \<and> (\<forall>st1 r.
               scanIteration loc st inp = Inr (st1, Recorded r)
               \<longrightarrow> r = [formatTimestamp loc (nowRecord inp), barcodeID inp,
                        sprintf_d (wrap64 ((if formatDate loc (nowRecord inp) = currentDate st
                                            then dailyCount st else 0) + 1))]
                   \<and> dailyCount st1 = wrap64 ((if formatDate loc (nowRecord inp) = currentDate st
                                                then dailyCount st else 0) + 1)
                   \<and> currentDate st1 = formatDate loc (nowRecord inp)
                   \<and> (\<forall>ls. checkRecentDuplicate (seekOk inp) ls (nowCheck inp) (barcodeID inp)
                               = Inr False
                             \<longrightarrow> (\<exists>st2. scanIteration loc (st\<lparr>store := ls\<rparr>) inp
                                          = Inr (st2, Recorded r)
                                        \<and> dailyCount st2 = dailyCount st1
                                        \<and> currentDate st2 = currentDate st1)))"
proof (intro conjI allI impI)
  show "(scanIteration loc st inp = Inr (st, DuplicateEntry))
        \<longleftrightarrow> checkRecentDuplicate (seekOk inp) (store st) (nowCheck inp) (barcodeID inp)
              = Inr True"
    using scanIteration_duplicate[OF tok, of loc st st] by simp
next
  fix st1 r
  assume acc: "scanIteration loc st inp = Inr (st1, Recorded r)"
  note rec = scanIteration_recorded[OF acc]
  have f: "checkRecentDuplicate (seekOk inp) (store st) (nowCheck inp) (barcodeID inp) = Inr False"
    and w: "\<not> writerFailed st" "writeResult inp = WriteOk"
    using rec by simp_all
  note eq = scanIteration_accepted[OF tok f w, of loc]
  show r: "r = [formatTimestamp loc (nowRecord inp), barcodeID inp,
                sprintf_d (wrap64 ((if formatDate loc (nowRecord inp) = currentDate st
                                    then dailyCount st else 0) + 1))]"
    using rec by auto
  show d1: "dailyCount st1 = wrap64 ((if formatDate loc (nowRecord inp) = currentDate st
                                      then dailyCount st else 0) + 1)"
    using acc unfolding eq by (auto simp: Let_def)
  show c1: "currentDate st1 = formatDate loc (nowRecord inp)"
    using acc unfolding eq by (auto simp: Let_def)
  fix ls
  assume g: "checkRecentDuplicate (seekOk inp) ls (nowCheck inp) (barcodeID inp) = Inr False"
  have tok': "numRegex (barcodeID inp)" by (rule tok)
  have g': "checkRecentDuplicate (seekOk inp) (store (st\<lparr>store := ls\<rparr>)) (nowCheck inp)
              (barcodeID inp) = Inr False"
    using g by simp
  have w': "\<not> writerFailed (st\<lparr>store := ls\<rparr>)" using w by simp
  show "\<exists>st2. scanIteration loc (st\<lparr>store := ls\<rparr>) inp = Inr (st2, Recorded r)
              \<and> dailyCount st2 = dailyCount st1 \<and> currentDate st2 = currentDate st1"
    unfolding scanIteration_accepted[OF tok' g' w' w(2), of loc] d1 c1 r
    by (auto simp: Let_def)
qed

theorem duplicate_check_rereads_count_is_cached_witness:
  "scanIteration utc afterFirst (scanAt ''12345'' (morning + 60000000000))
     = Inr (afterFirst, DuplicateEntry)
   \<and> (\<exists>st2. scanIteration utc (afterFirst\<lparr>store := []\<rparr>) (scanAt ''222'' (morning + 60000000000))
              = Inr (st2, Recorded [''2024-10-25T10:01:00+00:00'', ''222'', ''2''])
            \<and> dailyCount st2 = 2 \<and> currentDate st2 = ''2024-10-25'')"
proof -
  have n1: "numRegex (barcodeID (scanAt ''12345'' (morning + 60000000000)))" by code_simp
  have n2: "numRegex (barcodeID (scanAt ''222'' (morning + 60000000000)))" by code_simp
  have c: "checkRecentDuplicate (seekOk (scanAt ''12345'' (morning + 60000000000)))
             (store afterFirst) (nowCheck (scanAt ''12345'' (morning + 60000000000)))
             (barcodeID (scanAt ''12345'' (morning + 60000000000))) = Inr True"
    by code_simp
  have a: "scanIteration utc afterFirst (scanAt ''12345'' (morning + 60000000000))
           = Inr (afterFirst, DuplicateEntry)"
    using duplicate_check_rereads_count_is_cached[OF n1, of utc afterFirst, THEN conjunct1] c
    by simp
  have acc: "scanIteration utc afterFirst (scanAt ''222'' (morning + 60000000000))
             = Inr (\<lparr>store = [Fields [''2024-10-25T10:00:00+00:00'', ''12345'', ''1''],
                              Fields [''2024-10-25T10:01:00+00:00'', ''222'', ''2'']],
                     currentDate = ''2024-10-25'', dailyCount = 2, writerFailed = False\<rparr>,
                    Recorded [''2024-10-25T10:01:00+00:00'', ''222'', ''2''])"
    by code_simp
  have g: "checkRecentDuplicate (seekOk (scanAt ''222'' (morning + 60000000000))) []
             (nowCheck (scanAt ''222'' (morning + 60000000000)))
             (barcodeID (scanAt ''222'' (morning + 60000000000))) = Inr False"
    by code_simp
  note t = duplicate_check_rereads_count_is_cached[OF n2, of utc afterFirst, THEN conjunct2,
      rule_format, OF acc]
  have "\<exists>st2. scanIteration utc (afterFirst\<lparr>store := []\<rparr>) (scanAt ''222'' (morning + 60000000000))
              = Inr (st2, Recorded [''2024-10-25T10:01:00+00:00'', ''222'', ''2''])
            \<and> dailyCount st2
                = dailyCount \<lparr>store = [Fields [''2024-10-25T10:00:00+00:00'', ''12345'', ''1''],
                                        Fields [''2024-10-25T10:01:00+00:00'', ''222'', ''2'']],
                               currentDate = ''2024-10-25'', dailyCount = 2, writerFailed = False\<rparr>
            \<and> currentDate st2
                = currentDate \<lparr>store = [Fields [''2024-10-25T10:00:00+00:00'', ''12345'', ''1''],
                                         Fields [''2024-10-25T10:01:00+00:00'', ''222'', ''2'']],
                                currentDate = ''2024-10-25'', dailyCount = 2, writerFailed = False\<rparr>"
    using t[THEN conjunct2, THEN conjunct2, THEN conjunct2, rule_format, OF g] .
  then show ?thesis using a by simp
qed

section \<open>The claim about malformed rows\<close>















end
